theory Spec2Isabelle
  imports Main
begin

section \<open>Data model\<close>

text \<open>
  The repository holds two variants of the class \<open>Client\<close>: \<open>src/client.ts\<close>, which keeps
  \<open>numMessages\<close> and \<open>mailListeners\<close>, and a second one (\<open>src/unnamed/part_004\<close>), which
  keeps \<open>seenUIDs\<close>. Both extend \<open>EventEmitter\<close>. Functions of the second variant carry
  the suffix \<open>_seen\<close> where the name exists in both.

  The protocol engine (the \<open>imap\<close> package) and the MIME decoder (\<open>simpleParser\<close> of
  \<open>mailparser\<close>) are outside the repository. What they hand to the client is an input of
  the model: the reply to a search, the events of a fetch, the result of decoding a buffer.
  Debug logging has no effect on the state and is left out.
\<close>

type_synonym bytes = string

record EmailAddress =
  addr_name :: "string option"
  address :: string

text \<open>An \<open>AddressObject\<close> is read only through its field \<open>value\<close>, a list of addresses.\<close>

type_synonym AddressObject = "EmailAddress list"

datatype address_field =
  NoAddress | OneAddress AddressObject | ManyAddresses "AddressObject list"

text \<open>The fields of \<open>ParsedMail\<close> that the client reads; a date is a point in time.\<close>

record ParsedMail =
  p_from :: address_field
  p_to :: address_field
  p_subject :: "string option"
  p_date :: "nat option"
  p_text :: "string option"
  p_html :: "string option"

text \<open>\<open>Mail\<close> of \<open>types.ts\<close>; the fields \<open>from\<close> and \<open>to\<close> are \<open>sender\<close> and \<open>recipients\<close>.\<close>

record Mail =
  uid :: nat
  sender :: "EmailAddress list"
  recipients :: "EmailAddress list"
  subject :: string
  date :: nat
  plain :: "bytes option"
  html :: "bytes option"

record Config =
  host :: string
  port :: nat
  email :: string
  password :: string
  mailbox :: "string option"

record Box =
  box_name :: string
  total :: nat
  new :: nat
  unseen :: nat

text \<open>
  The source throws and rejects with plain \<open>Error\<close> objects. The constructors name where an
  error comes from: \<open>NotConnectedError\<close> is \<open>Error("Client not connected")\<close>,
  \<open>NoMailboxError\<close> is \<open>Error("No mailbox selected")\<close>, \<open>ConnectionError\<close> is an error
  of the engine's \<open>error\<close> event or thrown by its \<open>connect\<close>, \<open>MailboxError\<close> one passed
  to the \<open>openBox\<close> callback, \<open>FetchError\<close> one of a search callback or of a fetch's
  \<open>error\<close> event, \<open>DecodeError\<close> one thrown by \<open>simpleParser\<close>, and \<open>TypeError\<close> the
  call of a method on an undefined \<open>this.client\<close>.
\<close>

datatype error =
  NotConnectedError
  | NoMailboxError
  | ConnectionError string
  | MailboxError string
  | FetchError string
  | DecodeError string
  | TypeError

datatype 'a promise = Pending | Resolved 'a | Rejected error

text \<open>A promise settles once: \<open>resolve\<close> and \<open>reject\<close> on a settled promise do nothing.\<close>

fun settle :: "'a promise \<Rightarrow> 'a promise \<Rightarrow> 'a promise" where
  "settle Pending q = q"
| "settle (Resolved v) q = Resolved v"
| "settle (Rejected e) q = Rejected e"

text \<open>The calls the client makes on the engine, in the order it makes them.\<close>

datatype call =
  Connect
  | OpenBox string
  | Search
  | SeqFetchIds "nat list"
  | SeqFetchRange nat nat
  | FetchUids "nat list"
  | End

type_synonym imap = "call list"

fun is_fetch :: "call \<Rightarrow> bool" where
  "is_fetch (SeqFetchIds ids) = True"
| "is_fetch (SeqFetchRange a b) = True"
| "is_fetch (FetchUids ids) = True"
| "is_fetch c = False"

text \<open>
  One message of a fetch, as its events deliver it: the chunks of its body streams in
  arrival order, each with the \<open>which\<close> of its stream, the \<open>uid\<close> of its \<open>attributes\<close>
  event (\<open>None\<close> when the server sends none), and the tick at which the decoding started
  by its \<open>end\<close> event settles. Ticks count from the start of the cycle. Decoding always
  settles.
\<close>

record ImapMessage =
  chunks :: "(string \<times> bytes) list"
  attrs_uid :: "nat option"
  settles_at :: nat

text \<open>
  What a fetch emits besides its messages. The handlers for \<open>error\<close> and \<open>end\<close> are
  registered with \<open>once\<close>, independently of each other; the engine emits \<open>error\<close> before
  \<open>end\<close> when it emits both.
\<close>

datatype fetch_signals = NoSignal | ErrorOnly string | EndOnly | ErrorThenEnd string

text \<open>\<open>error_at\<close> is the tick of the \<open>error\<close> event, when the fetch emits one.\<close>

record fetch_reply =
  messages :: "ImapMessage list"
  signals :: fetch_signals
  error_at :: nat

text \<open>The engine answers a fetch call with the events of that fetch.\<close>

type_synonym engine_fetch = "call \<Rightarrow> fetch_reply"

datatype search_reply = NoReply | SearchErr string | SearchOk "nat list"

datatype openBox_reply = NoBoxReply | BoxErr string | BoxOk Box

type_synonym simpleParser = "bytes \<Rightarrow> string + ParsedMail"

type_synonym handler = nat

section \<open>EventEmitter\<close>

text \<open>
  The listeners of the event \<open>mail\<close>, and two logs: every call of a listener, and every
  \<open>emit("mail", mail)\<close>. Listeners return normally.
\<close>

record EventEmitter =
  listeners :: "handler list"
  invoked :: "(handler \<times> Mail) list"
  emitted :: "Mail list"

definition emitter_on :: "handler \<Rightarrow> 'a EventEmitter_scheme \<Rightarrow> 'a EventEmitter_scheme" where
  "emitter_on h st = st\<lparr>listeners := listeners st @ [h]\<rparr>"

definition call_all :: "handler list \<Rightarrow> Mail \<Rightarrow> 'a EventEmitter_scheme \<Rightarrow> 'a EventEmitter_scheme" where
  "call_all hs m st = st\<lparr>invoked := invoked st @ map (\<lambda>h. (h, m)) hs\<rparr>"

definition emit :: "Mail \<Rightarrow> 'a EventEmitter_scheme \<Rightarrow> 'a EventEmitter_scheme" where
  "emit m st = call_all (listeners st) m (st\<lparr>emitted := emitted st @ [m]\<rparr>)"

definition invocations :: "'a EventEmitter_scheme \<Rightarrow> handler \<Rightarrow> nat" where
  "invocations st h = count_list (map fst (invoked st)) h"

section \<open>State of the two variants\<close>

record ClientCore = EventEmitter +
  config :: Config
  client :: "imap option"
  currentBox :: "Box option"
  pushListener :: bool

text \<open>
  \<open>client\<close> is \<open>None\<close> while \<open>this.client\<close> is undefined, and otherwise the calls made on
  the engine so far. \<open>pushListener\<close> says that \<open>setupListeners\<close> has registered the handler
  of the engine's \<open>mail\<close> event.
\<close>

record Client = ClientCore +
  numMessages :: nat
  mailListeners :: "handler list"

text \<open>
  \<open>inflight\<close> holds the messages of the second variant whose \<open>end\<close> handler is still
  awaiting \<open>simpleParser\<close>, in the order in which they will complete, each with the clock
  at the start of its cycle.
\<close>

record Client_seen = ClientCore +
  seenUIDs :: "nat set"
  inflight :: "(nat \<times> ImapMessage) list"

definition engine_call :: "call \<Rightarrow> 'a ClientCore_scheme \<Rightarrow> 'a ClientCore_scheme" where
  "engine_call c st = st\<lparr>client := map_option (\<lambda>cs. cs @ [c]) (client st)\<rparr>"

definition calls :: "'a ClientCore_scheme \<Rightarrow> call list" where
  "calls st = (case client st of None \<Rightarrow> [] | Some cs \<Rightarrow> cs)"

definition fetch_count :: "'a ClientCore_scheme \<Rightarrow> nat" where
  "fetch_count st = length (filter is_fetch (calls st))"

section \<open>Decoding one message\<close>

fun extractAddresses :: "address_field \<Rightarrow> EmailAddress list" where
  "extractAddresses NoAddress = []"
| "extractAddresses (ManyAddresses objs) = concat objs"
| "extractAddresses (OneAddress obj) = obj"

definition or_empty :: "string option \<Rightarrow> string" where
  "or_empty s = (case s of None \<Rightarrow> [] | Some t \<Rightarrow> t)"

definition or_zero :: "nat option \<Rightarrow> nat" where
  "or_zero u = (case u of None \<Rightarrow> 0 | Some n \<Rightarrow> n)"

text \<open>
  \<open>processSingleMessage\<close> of \<open>client.ts\<close>: all chunks go into one buffer, which is decoded
  once; a decoding error rejects the message's promise. \<open>now\<close> is the clock at the start
  of the cycle; \<open>new Date()\<close> is evaluated after the decoding has settled, so it reads
  \<open>now\<close> plus the ticks to that point.
\<close>

definition processSingleMessage :: "simpleParser \<Rightarrow> nat \<Rightarrow> ImapMessage \<Rightarrow> error + Mail" where
  "processSingleMessage parser now msg =
     (let fullMessage = concat (map snd (chunks msg)) in
      case parser fullMessage of
        Inl e \<Rightarrow> Inl (DecodeError e)
      | Inr parsed \<Rightarrow> Inr \<lparr>
          uid = or_zero (attrs_uid msg),
          sender = extractAddresses (p_from parsed),
          recipients = extractAddresses (p_to parsed),
          subject = or_empty (p_subject parsed),
          date = (case p_date parsed of None \<Rightarrow> now + settles_at msg | Some d \<Rightarrow> d),
          plain = Some (or_empty (p_text parsed)),
          html = (case p_html parsed of None \<Rightarrow> None
                  | Some h \<Rightarrow> if h = [] then None else Some h) \<rparr>)"

text \<open>
  The body of the \<open>end\<close> handler of a message in \<open>fetchMessages\<close> of the second variant:
  header and body chunks go into two buffers (a stream is the body when its \<open>which\<close> is
  \<open>TEXT\<close>), each decoded on its own, the header first. \<open>new Date()\<close> is evaluated after
  both.
\<close>

definition parse_message_seen :: "simpleParser \<Rightarrow> nat \<Rightarrow> ImapMessage \<Rightarrow> error + Mail" where
  "parse_message_seen parser now msg =
     (let headerBuffer = concat (map snd (filter (\<lambda>c. fst c \<noteq> ''TEXT'') (chunks msg)));
          bodyBuffer = concat (map snd (filter (\<lambda>c. fst c = ''TEXT'') (chunks msg))) in
      case parser headerBuffer of
        Inl e \<Rightarrow> Inl (DecodeError e)
      | Inr parsedHeader \<Rightarrow>
          (case parser bodyBuffer of
             Inl e \<Rightarrow> Inl (DecodeError e)
           | Inr parsedBody \<Rightarrow> Inr \<lparr>
               uid = or_zero (attrs_uid msg),
               sender = extractAddresses (p_from parsedHeader),
               recipients = extractAddresses (p_to parsedHeader),
               subject = or_empty (p_subject parsedHeader),
               date = (case p_date parsedHeader of None \<Rightarrow> now + settles_at msg
                       | Some d \<Rightarrow> d),
               plain = Some (or_empty (p_text parsedBody)),
               html = Some (or_empty (p_html parsedBody)) \<rparr>))"

section \<open>Promise.all\<close>

text \<open>
  The promises of the messages are collected in the order of the \<open>message\<close> events and
  settle in the order of \<open>settles_at\<close> (ties in arrival order). \<open>Promise.all\<close> rejects with
  the first rejection in that order, and otherwise fulfils with the values in the order of
  the array.
\<close>

fun first_rejection :: "(error + 'a) list \<Rightarrow> error option" where
  "first_rejection [] = None"
| "first_rejection (Inl e # rs) = Some e"
| "first_rejection (Inr v # rs) = first_rejection rs"

fun fulfilled :: "(error + 'a) list \<Rightarrow> 'a list" where
  "fulfilled [] = []"
| "fulfilled (Inl e # rs) = fulfilled rs"
| "fulfilled (Inr v # rs) = v # fulfilled rs"

definition Promise_all :: "(ImapMessage \<Rightarrow> error + 'a) \<Rightarrow> ImapMessage list \<Rightarrow> error + 'a list" where
  "Promise_all task msgs =
     (case first_rejection (map task (sort_key settles_at msgs)) of
        Some e \<Rightarrow> Inl e
      | None \<Rightarrow> Inr (fulfilled (map task msgs)))"

section \<open>The variant of client.ts\<close>

text \<open>\<open>on\<close> registers the listener with the emitter and in \<open>mailListeners\<close>.\<close>

definition on :: "handler \<Rightarrow> 'a Client_scheme \<Rightarrow> 'a Client_scheme" where
  "on h st = (let st1 = emitter_on h st in st1\<lparr>mailListeners := mailListeners st1 @ [h]\<rparr>)"

text \<open>The body of \<open>mails.forEach\<close>: \<open>emit\<close>, then every element of \<open>mailListeners\<close>.\<close>

definition publish :: "'a Client_scheme \<Rightarrow> Mail \<Rightarrow> 'a Client_scheme" where
  "publish st m = (let st1 = emit m st in call_all (mailListeners st1) m st1)"

text \<open>
  The handlers of a fetch in \<open>getUnseenMails\<close> and \<open>fetchNewMessages\<close>: \<open>after\<close> is what
  the \<open>end\<close> handler does to the state once every mail is published. The state returned
  is the one reached when the handlers have run; on \<open>error\<close> followed by \<open>end\<close> that is
  later than the rejection.
\<close>

definition on_end :: "simpleParser \<Rightarrow> nat \<Rightarrow> ('a Client_scheme \<Rightarrow> 'a Client_scheme) \<Rightarrow>
    ImapMessage list \<Rightarrow> 'a Client_scheme \<Rightarrow> unit promise \<times> 'a Client_scheme" where
  "on_end parser now after msgs st =
     (case Promise_all (processSingleMessage parser now) msgs of
        Inr mails \<Rightarrow> (Resolved (), after (foldl publish st mails))
      | Inl e \<Rightarrow> (Rejected e, st))"

definition fetch_cycle :: "simpleParser \<Rightarrow> nat \<Rightarrow> ('a Client_scheme \<Rightarrow> 'a Client_scheme) \<Rightarrow>
    fetch_reply \<Rightarrow> 'a Client_scheme \<Rightarrow> unit promise \<times> 'a Client_scheme" where
  "fetch_cycle parser now after reply st =
     (case signals reply of
        NoSignal \<Rightarrow> (Pending, st)
      | ErrorOnly e \<Rightarrow> (Rejected (FetchError e), st)
      | EndOnly \<Rightarrow> on_end parser now after (messages reply) st
      | ErrorThenEnd e \<Rightarrow>
          (let (p, st1) = on_end parser now after (messages reply) st
           in (settle (Rejected (FetchError e)) p, st1)))"

definition getUnseenMails :: "simpleParser \<Rightarrow> nat \<Rightarrow> search_reply \<Rightarrow> engine_fetch \<Rightarrow>
    'a Client_scheme \<Rightarrow> unit promise \<times> 'a Client_scheme" where
  "getUnseenMails parser now sr fetch st =
     (if client st = None then (Rejected NotConnectedError, st)
      else let st1 = engine_call Search st in
        case sr of
          NoReply \<Rightarrow> (Pending, st1)
        | SearchErr e \<Rightarrow> (Rejected (FetchError e), st1)
        | SearchOk uids \<Rightarrow>
            if length uids = 0 then (Resolved (), st1)
            else fetch_cycle parser now (\<lambda>s. s) (fetch (SeqFetchIds uids))
                   (engine_call (SeqFetchIds uids) st1))"

text \<open>
  \<open>fetchNewMessages\<close>: the range is computed from \<open>numMessages\<close> before the fetch, and
  \<open>numMessages\<close> grows by \<open>numNew\<close> at the end of the \<open>end\<close> handler.
\<close>

definition fetchNewMessages :: "simpleParser \<Rightarrow> nat \<Rightarrow> nat \<Rightarrow> engine_fetch \<Rightarrow>
    'a Client_scheme \<Rightarrow> unit promise \<times> 'a Client_scheme" where
  "fetchNewMessages parser now numNew fetch st =
     (if client st = None then (Resolved (), st)
      else let seqStart = numMessages st + 1;
               seqEnd = numMessages st + numNew
        in fetch_cycle parser now (\<lambda>s. s\<lparr>numMessages := numMessages s + numNew\<rparr>)
             (fetch (SeqFetchRange seqStart seqEnd))
             (engine_call (SeqFetchRange seqStart seqEnd) st))"

text \<open>
  The listener that \<open>setupListeners\<close> registers for the engine's \<open>mail\<close> event calls
  \<open>fetchNewMessages\<close> and drops its promise.
\<close>

definition mail_event :: "simpleParser \<Rightarrow> nat \<Rightarrow> nat \<Rightarrow> engine_fetch \<Rightarrow>
    'a Client_scheme \<Rightarrow> 'a Client_scheme" where
  "mail_event parser now numNew fetch st =
     (if pushListener st then snd (fetchNewMessages parser now numNew fetch st) else st)"

section \<open>Connecting\<close>

text \<open>
  What the engine does after \<open>connect()\<close>: its \<open>error\<close> and \<open>ready\<close> events and the call
  of the callback given to \<open>openBox\<close>. \<open>errL\<close> and \<open>readyL\<close> say that the \<open>once\<close> listeners
  are still registered, \<open>boxP\<close> that an \<open>openBox\<close> callback is outstanding. An \<open>error\<close>
  event without a listener is thrown inside the engine: no later event reaches the client.
\<close>

datatype conn_event = ErrorEv string | ReadyEv | OpenBoxCb "string + Box"

definition setupListeners :: "'a ClientCore_scheme \<Rightarrow> 'a ClientCore_scheme" where
  "setupListeners st = st\<lparr>pushListener := True\<rparr>"

definition new_Client :: "Config \<Rightarrow> Client" where
  "new_Client cfg = \<lparr>
     listeners = [], invoked = [], emitted = [],
     config = cfg\<lparr>mailbox := Some (case mailbox cfg of None \<Rightarrow> ''INBOX''
                                    | Some m \<Rightarrow> if m = [] then ''INBOX'' else m)\<rparr>,
     client = None, currentBox = None, pushListener = False,
     numMessages = 0, mailListeners = [] \<rparr>"

definition configured_mailbox :: "'a ClientCore_scheme \<Rightarrow> string" where
  "configured_mailbox st = or_empty (mailbox (config st))"

fun connect_events :: "conn_event list \<Rightarrow> bool \<Rightarrow> bool \<Rightarrow> bool \<Rightarrow> unit promise \<Rightarrow>
    'a Client_scheme \<Rightarrow> unit promise \<times> 'a Client_scheme" where
  "connect_events [] errL readyL boxP p st = (p, st)"
| "connect_events (ErrorEv e # evs) errL readyL boxP p st =
     (if errL
      then connect_events evs False readyL boxP (settle p (Rejected (ConnectionError e))) st
      else (p, st))"
| "connect_events (ReadyEv # evs) errL readyL boxP p st =
     (if readyL
      then connect_events evs False False True p
             (engine_call (OpenBox (configured_mailbox st)) st)
      else connect_events evs errL readyL boxP p st)"
| "connect_events (OpenBoxCb r # evs) errL readyL boxP p st =
     (if boxP
      then (case r of
              Inl e \<Rightarrow> connect_events evs errL readyL False
                         (settle p (Rejected (MailboxError e))) st
            | Inr box \<Rightarrow> connect_events evs errL readyL False (settle p (Resolved ()))
                         (setupListeners
                            (st\<lparr>currentBox := Some box, numMessages := total box\<rparr>)))
      else connect_events evs errL readyL boxP p st)"

text \<open>\<open>thrown\<close> is the error that the engine's \<open>connect()\<close> throws, when it throws.\<close>

definition connect :: "string option \<Rightarrow> conn_event list \<Rightarrow> 'a Client_scheme \<Rightarrow>
    unit promise \<times> 'a Client_scheme" where
  "connect thrown evs st =
     (let st1 = engine_call Connect (st\<lparr>client := Some []\<rparr>);
          p = (case thrown of None \<Rightarrow> Pending | Some e \<Rightarrow> Rejected (ConnectionError e))
      in connect_events evs True True False p st1)"

definition create :: "Config \<Rightarrow> string option \<Rightarrow> conn_event list \<Rightarrow> Client promise" where
  "create cfg thrown evs =
     (case connect thrown evs (new_Client cfg) of
        (Pending, st) \<Rightarrow> Pending
      | (Resolved u, st) \<Rightarrow> Resolved st
      | (Rejected e, st) \<Rightarrow> Rejected e)"

section \<open>Closing and switching the mailbox\<close>

text \<open>
  The same in both variants. \<open>close\<close> calls \<open>end()\<close> on the engine and resolves; it assigns
  no field. \<open>switchMailbox\<close> calls \<open>openBox\<close> without a check and settles in its callback.
\<close>

definition close :: "'a ClientCore_scheme \<Rightarrow> unit promise \<times> 'a ClientCore_scheme" where
  "close st =
     (if client st = None then (Rejected TypeError, st)
      else (Resolved (), engine_call End st))"

definition switchMailbox :: "string \<Rightarrow> openBox_reply \<Rightarrow> 'a ClientCore_scheme \<Rightarrow>
    Box promise \<times> 'a ClientCore_scheme" where
  "switchMailbox mailboxName reply st =
     (if client st = None then (Rejected TypeError, st)
      else let st1 = engine_call (OpenBox mailboxName) st in
        case reply of
          NoBoxReply \<Rightarrow> (Pending, st1)
        | BoxErr e \<Rightarrow> (Rejected (MailboxError e), st1)
        | BoxOk box \<Rightarrow> (Resolved box, st1\<lparr>currentBox := Some box\<rparr>))"

section \<open>The variant with seenUIDs\<close>

text \<open>
  The \<open>end\<close> handler of one message in \<open>fetchMessages\<close>: on success the identifier is added
  to \<open>seenUIDs\<close>, then the mail is emitted; on a decoding error nothing changes. Either way
  the message's promise is resolved.
\<close>

definition message_end :: "simpleParser \<Rightarrow> nat \<Rightarrow> 'a Client_seen_scheme \<Rightarrow> ImapMessage \<Rightarrow>
    'a Client_seen_scheme" where
  "message_end parser now st msg =
     (case parse_message_seen parser now msg of
        Inr mail \<Rightarrow> emit mail (st\<lparr>seenUIDs := insert (uid mail) (seenUIDs st)\<rparr>)
      | Inl e \<Rightarrow> st)"

text \<open>
  The decodings that are still running complete. In the model this happens between two
  operations, not in the middle of one.
\<close>

definition settle_inflight :: "simpleParser \<Rightarrow> 'a Client_seen_scheme \<Rightarrow> 'a Client_seen_scheme" where
  "settle_inflight parser st =
     foldl (\<lambda>s (now, msg). message_end parser now s msg) (st\<lparr>inflight := []\<rparr>) (inflight st)"

text \<open>
  The \<open>end\<close> handlers of the messages run in the order in which the decodings settle.
  On \<open>end\<close> the promise is resolved after all of them. On \<open>error\<close> it is rejected at
  once: the handlers of the decodings that settled before the error have run, the others
  are still in flight when the caller sees the rejection. A promise that never settles
  leaves all of them in flight.
\<close>

definition fetchMessages :: "simpleParser \<Rightarrow> nat \<Rightarrow> nat list \<Rightarrow> engine_fetch \<Rightarrow>
    'a Client_seen_scheme \<Rightarrow> unit promise \<times> 'a Client_seen_scheme" where
  "fetchMessages parser now uids fetch st =
     (let reply = fetch (FetchUids uids);
          st1 = engine_call (FetchUids uids) st;
          order = sort_key settles_at (messages reply);
          early = takeWhile (\<lambda>m. settles_at m < error_at reply) order;
          late = dropWhile (\<lambda>m. settles_at m < error_at reply) order;
          interrupted = (foldl (message_end parser now) st1 early)
                          \<lparr>inflight := inflight st1 @ map (Pair now) late\<rparr>
      in case signals reply of
           NoSignal \<Rightarrow> (Pending, st1\<lparr>inflight := inflight st1 @ map (Pair now) order\<rparr>)
         | ErrorOnly e \<Rightarrow> (Rejected (FetchError e), interrupted)
         | EndOnly \<Rightarrow> (Resolved (), foldl (message_end parser now) st1 order)
         | ErrorThenEnd e \<Rightarrow> (Rejected (FetchError e), interrupted))"

text \<open>The identifiers of a search that are not in \<open>seenUIDs\<close>.\<close>

definition newUIDs :: "nat set \<Rightarrow> nat list \<Rightarrow> nat list" where
  "newUIDs seen uids = filter (\<lambda>uid. uid \<notin> seen) uids"

definition getUnseenMails_seen :: "simpleParser \<Rightarrow> nat \<Rightarrow> search_reply \<Rightarrow> engine_fetch \<Rightarrow>
    'a Client_seen_scheme \<Rightarrow> unit promise \<times> 'a Client_seen_scheme" where
  "getUnseenMails_seen parser now sr fetch st =
     (if client st = None then (Rejected NotConnectedError, st)
      else if currentBox st = None then (Rejected NoMailboxError, st)
      else let st1 = engine_call Search st in
        case sr of
          NoReply \<Rightarrow> (Pending, st1)
        | SearchErr e \<Rightarrow> (Rejected (FetchError e), st1)
        | SearchOk uids \<Rightarrow>
            if length uids = 0 then (Resolved (), st1)
            else if length (newUIDs (seenUIDs st1) uids) = 0 then (Resolved (), st1)
            else fetchMessages parser now (newUIDs (seenUIDs st1) uids) fetch st1)"

text \<open>
  \<open>fetchNewMails\<close> awaits \<open>getUnseenMails\<close> and catches its rejection. The listener of the
  engine's \<open>mail\<close> event adds \<open>numNew\<close> to the counters of \<open>currentBox\<close> and calls it.
\<close>

definition fetchNewMails :: "simpleParser \<Rightarrow> nat \<Rightarrow> search_reply \<Rightarrow> engine_fetch \<Rightarrow>
    'a Client_seen_scheme \<Rightarrow> unit promise \<times> 'a Client_seen_scheme" where
  "fetchNewMails parser now sr fetch st =
     (case getUnseenMails_seen parser now sr fetch st of
        (Pending, st1) \<Rightarrow> (Pending, st1)
      | (Resolved u, st1) \<Rightarrow> (Resolved (), st1)
      | (Rejected e, st1) \<Rightarrow> (Resolved (), st1))"

definition mail_event_seen :: "simpleParser \<Rightarrow> nat \<Rightarrow> nat \<Rightarrow> search_reply \<Rightarrow> engine_fetch \<Rightarrow>
    'a Client_seen_scheme \<Rightarrow> 'a Client_seen_scheme" where
  "mail_event_seen parser now numNew sr fetch st =
     (if pushListener st
      then let st1 = st\<lparr>currentBox :=
                 map_option (\<lambda>b. b\<lparr>total := total b + numNew, new := new b + numNew\<rparr>)
                   (currentBox st)\<rparr>
        in snd (fetchNewMails parser now sr fetch st1)
      else st)"

section \<open>What an operation publishes\<close>

text \<open>The mails emitted between two states, the second reached from the first.\<close>

definition published :: "'a EventEmitter_scheme \<Rightarrow> 'b EventEmitter_scheme \<Rightarrow> Mail list" where
  "published st st' = drop (length (emitted st)) (emitted st')"

text \<open>
  An engine that answers a fetch by identifier only with messages it was asked for, each
  carrying its identifier in the \<open>attributes\<close> event.
\<close>

definition returns_requested :: "engine_fetch \<Rightarrow> bool" where
  "returns_requested fetch \<longleftrightarrow>
     (\<forall>ids. \<forall>m\<in>set (messages (fetch (FetchUids ids))). \<exists>u\<in>set ids. attrs_uid m = Some u)"

section \<open>Sample inputs\<close>

text \<open>A decoder that rejects the buffer \<open>garbage\<close> and reads any other as subject and text.\<close>

definition sample_parser :: simpleParser where
  "sample_parser b =
     (if b = ''garbage'' then Inl ''bad MIME''
      else Inr \<lparr>p_from = NoAddress, p_to = NoAddress, p_subject = Some b,
                p_date = None, p_text = Some b, p_html = None\<rparr>)"

definition sample_msg :: "nat \<Rightarrow> nat \<Rightarrow> ImapMessage" where
  "sample_msg u t = \<lparr>chunks = [(''TEXT'', ''hello'')], attrs_uid = Some u, settles_at = t\<rparr>"

definition garbage_msg :: "nat \<Rightarrow> nat \<Rightarrow> ImapMessage" where
  "garbage_msg u t = \<lparr>chunks = [(''TEXT'', ''garbage'')], attrs_uid = Some u, settles_at = t\<rparr>"

definition sample_box :: Box where
  "sample_box = \<lparr>box_name = ''INBOX'', total = 100, new = 10, unseen = 5\<rparr>"

definition sample_config :: Config where
  "sample_config = \<lparr>host = ''imap.test.com'', port = 993, email = ''test@test.com'',
     password = ''password'', mailbox = None\<rparr>"

text \<open>The client after \<open>create\<close> has resolved, in each variant.\<close>

definition ready_client :: Client where
  "ready_client = \<lparr>listeners = [], invoked = [], emitted = [],
     config = sample_config\<lparr>mailbox := Some ''INBOX''\<rparr>,
     client = Some [Connect, OpenBox ''INBOX''], currentBox = Some sample_box,
     pushListener = True, numMessages = 100, mailListeners = []\<rparr>"

definition ready_client_seen :: Client_seen where
  "ready_client_seen = \<lparr>listeners = [], invoked = [], emitted = [],
     config = sample_config,
     client = Some [Connect, OpenBox ''INBOX''], currentBox = Some sample_box,
     pushListener = True, seenUIDs = {}, inflight = []\<rparr>"

text \<open>An engine that returns the requested messages, in the order of the request.\<close>

fun requested :: "call \<Rightarrow> nat list" where
  "requested (SeqFetchIds ids) = ids"
| "requested (FetchUids ids) = ids"
| "requested (SeqFetchRange a b) = [a..<Suc b]"
| "requested c = []"

definition sample_fetch :: engine_fetch where
  "sample_fetch c = \<lparr>messages = map (\<lambda>u. sample_msg u 0) (requested c), signals = EndOnly,
     error_at = 0\<rparr>"

text \<open>A fetch that the server rejects: the engine emits \<open>error\<close> and then \<open>end\<close>.\<close>

definition rejected_fetch :: engine_fetch where
  "rejected_fetch c = \<lparr>messages = [], signals = ErrorThenEnd ''boom'', error_at = 0\<rparr>"


text \<open>Two messages of which the first cannot be decoded.\<close>

definition mixed_fetch :: engine_fetch where
  "mixed_fetch c = \<lparr>messages = [garbage_msg 1 0, sample_msg 2 0], signals = EndOnly,
     error_at = 0\<rparr>"


text \<open>One message, and an \<open>error\<close> while its decoding is still running.\<close>

definition interrupted_fetch :: engine_fetch where
  "interrupted_fetch c = \<lparr>messages = [sample_msg 1 5], signals = ErrorOnly ''boom'',
     error_at = 2\<rparr>"

text \<open>The states after a first scan whose search returns 1, 2 and 3.\<close>

definition first_scan :: Client where
  "first_scan = snd (getUnseenMails sample_parser 0 (SearchOk [1, 2, 3]) sample_fetch ready_client)"

definition first_scan_seen :: Client_seen where
  "first_scan_seen =
     snd (getUnseenMails_seen sample_parser 0 (SearchOk [1, 2, 3]) sample_fetch ready_client_seen)"

text \<open>The state after a scan for 1 that the fetch error rejects while 1 is being decoded.\<close>

definition interrupted_scan :: Client_seen where
  "interrupted_scan =
     snd (getUnseenMails_seen sample_parser 0 (SearchOk [1]) interrupted_fetch ready_client_seen)"

section \<open>Basic facts\<close>

lemma client_engine_call [simp]: "client (engine_call c st) = map_option (\<lambda>cs. cs @ [c]) (client st)"
  by (simp add: engine_call_def)

lemma engine_call_fields [simp]:
  "listeners (engine_call c st) = listeners st"
  "invoked (engine_call c st) = invoked st"
  "emitted (engine_call c st) = emitted st"
  "currentBox (engine_call c st) = currentBox st"
  "pushListener (engine_call c st) = pushListener st"
  "config (engine_call c st) = config st"
  by (simp_all add: engine_call_def)

lemma engine_call_Client_fields [simp]:
  "numMessages (engine_call c st) = numMessages st"
  "mailListeners (engine_call c st) = mailListeners st"
  by (simp_all add: engine_call_def)

lemma engine_call_seenUIDs [simp]: "seenUIDs (engine_call c st) = seenUIDs st"
  by (simp add: engine_call_def)

lemma calls_engine_call:
  "calls (engine_call c st) = (if client st = None then [] else calls st @ [c])"
  by (auto simp: calls_def split: option.splits)

lemma fetch_count_engine_call:
  "fetch_count (engine_call c st) =
     (if client st = None then 0 else fetch_count st + (if is_fetch c then 1 else 0))"
  by (simp add: fetch_count_def calls_engine_call)

lemma published_append [simp]: "emitted st' = emitted st @ ms \<Longrightarrow> published st st' = ms"
  by (simp add: published_def)

lemma published_same [simp]: "emitted st' = emitted st \<Longrightarrow> published st st' = []"
  by (simp add: published_def)

lemma settle_settled [simp]: "p \<noteq> Pending \<Longrightarrow> settle p q = p"
  by (cases p) simp_all

subsection \<open>Promise.all\<close>

lemma first_rejection_None: "first_rejection rs = None \<longleftrightarrow> (\<forall>r\<in>set rs. \<exists>v. r = Inr v)"
  by (induction rs rule: first_rejection.induct) auto

lemma first_rejection_Some: "first_rejection rs = Some e \<Longrightarrow> Inl e \<in> set rs"
  by (induction rs rule: first_rejection.induct) (auto split: if_splits)

lemma fulfilled_all: "\<forall>r\<in>set rs. \<exists>v. r = Inr v \<Longrightarrow> map Inr (fulfilled rs) = rs"
  by (induction rs rule: fulfilled.induct) auto

lemma fulfilled_map_Inr: "fulfilled (map Inr vs) = vs"
  by (induction vs) simp_all

lemma length_fulfilled_le: "length (fulfilled rs) \<le> length rs"
  by (induction rs rule: fulfilled.induct) auto

lemma fulfilled_append [simp]: "fulfilled (rs @ rs') = fulfilled rs @ fulfilled rs'"
  by (induction rs rule: fulfilled.induct) simp_all

lemma fulfilled_Cons: "fulfilled (r # rs) = fulfilled [r] @ fulfilled rs"
  by (cases r) simp_all

lemma set_fulfilled: "set (fulfilled rs) = {v. Inr v \<in> set rs}"
  by (induction rs rule: fulfilled.induct) auto

lemma set_fulfilled_map: "set (fulfilled (map f xs)) = {v. \<exists>x\<in>set xs. f x = Inr v}"
proof (induction xs)
  case Nil
  then show ?case by simp
next
  case (Cons x xs)
  then show ?case by (cases "f x") auto
qed

lemma Promise_all_Inr:
  "Promise_all task msgs = Inr vs \<longleftrightarrow> (map Inr vs = map task msgs)"
proof
  assume a: "Promise_all task msgs = Inr vs"
  then have n: "first_rejection (map task (sort_key settles_at msgs)) = None"
    and v: "vs = fulfilled (map task msgs)"
    by (auto simp: Promise_all_def split: option.splits)
  from n have "\<forall>r\<in>set (map task msgs). \<exists>v. r = Inr v"
    by (auto simp: first_rejection_None)
  then show "map Inr vs = map task msgs" unfolding v by (rule fulfilled_all)
next
  assume a: "map Inr vs = map task msgs"
  have all: "\<forall>m\<in>set msgs. \<exists>v. task m = Inr v"
  proof
    fix m assume "m \<in> set msgs"
    then have "task m \<in> set (map task msgs)" by simp
    then have "task m \<in> set (map Inr vs)" using a by simp
    then show "\<exists>v. task m = Inr v" by auto
  qed
  then have "first_rejection (map task (sort_key settles_at msgs)) = None"
    by (auto simp: first_rejection_None)
  moreover have "fulfilled (map task msgs) = vs"
    using a [symmetric] by (simp add: fulfilled_map_Inr)
  ultimately show "Promise_all task msgs = Inr vs" by (simp add: Promise_all_def)
qed

lemma Promise_all_Inl:
  "Promise_all task msgs = Inl e \<Longrightarrow> \<exists>m\<in>set msgs. task m = Inl e"
proof -
  assume "Promise_all task msgs = Inl e"
  then have "first_rejection (map task (sort_key settles_at msgs)) = Some e"
    by (auto simp: Promise_all_def split: option.splits)
  then have "Inl e \<in> set (map task (sort_key settles_at msgs))" by (rule first_rejection_Some)
  then show ?thesis by force
qed

lemma Promise_all_failure:
  assumes "m \<in> set msgs" "task m = Inl e"
  shows "\<exists>e'. Promise_all task msgs = Inl e'"
proof (cases "Promise_all task msgs")
  case (Inl e')
  then show ?thesis by blast
next
  case (Inr vs)
  then have "map Inr vs = map task msgs" by (simp add: Promise_all_Inr)
  then have "set (map task msgs) = set (map Inr vs)" by simp
  moreover have "Inl e \<in> set (map task msgs)" using assms by force
  ultimately have "Inl e \<in> set (map Inr vs)" by blast
  then show ?thesis by auto
qed

subsection \<open>The cycle of client.ts\<close>

lemma publish_fields [simp]:
  "emitted (publish st m) = emitted st @ [m]"
  "invoked (publish st m) = invoked st @ map (\<lambda>h. (h, m)) (listeners st @ mailListeners st)"
  "listeners (publish st m) = listeners st"
  "mailListeners (publish st m) = mailListeners st"
  "client (publish st m) = client st"
  "currentBox (publish st m) = currentBox st"
  "numMessages (publish st m) = numMessages st"
  by (simp_all add: publish_def emit_def call_all_def Let_def)

lemma foldl_publish_fields [simp]:
  "listeners (foldl publish st ms) = listeners st"
  "mailListeners (foldl publish st ms) = mailListeners st"
  "client (foldl publish st ms) = client st"
  "currentBox (foldl publish st ms) = currentBox st"
  "numMessages (foldl publish st ms) = numMessages st"
  by (induction ms arbitrary: st) simp_all

lemma emitted_foldl_publish [simp]: "emitted (foldl publish st ms) = emitted st @ ms"
  by (induction ms arbitrary: st) simp_all

lemma invoked_foldl_publish:
  "invoked (foldl publish st ms) =
     invoked st @ concat (map (\<lambda>m. map (\<lambda>h. (h, m)) (listeners st @ mailListeners st)) ms)"
  by (induction ms arbitrary: st) simp_all

lemma count_list_map_fst_pair [simp]:
  "count_list (map (fst \<circ> (\<lambda>h. (h, m))) hs) h = count_list hs h"
  by (induction hs) simp_all

lemma invocations_foldl_publish:
  "invocations (foldl publish st ms) h =
     invocations st h + length ms * (count_list (listeners st) h + count_list (mailListeners st) h)"
proof (induction ms arbitrary: st)
  case Nil
  then show ?case by simp
next
  case (Cons m ms)
  have "invocations (publish st m) h =
          invocations st h + (count_list (listeners st) h + count_list (mailListeners st) h)"
    by (simp add: invocations_def)
  with Cons show ?case by (simp add: algebra_simps)
qed

lemma on_fields [simp]:
  "listeners (on h st) = listeners st @ [h]"
  "mailListeners (on h st) = mailListeners st @ [h]"
  "invoked (on h st) = invoked st"
  "emitted (on h st) = emitted st"
  "client (on h st) = client st"
  "numMessages (on h st) = numMessages st"
  by (simp_all add: on_def emitter_on_def Let_def)


lemma processSingleMessage_Inl:
  "processSingleMessage parser now m = Inl e \<Longrightarrow> \<exists>x. e = DecodeError x"
  by (auto simp: processSingleMessage_def Let_def split: sum.splits)

lemma on_end_Resolved:
  "on_end parser now after msgs st = (Resolved u, st') \<longleftrightarrow>
     (\<exists>mails. map Inr mails = map (processSingleMessage parser now) msgs \<and>
              st' = after (foldl publish st mails))"
  by (cases "Promise_all (processSingleMessage parser now) msgs")
     (auto simp: on_end_def Promise_all_Inr [symmetric])

lemma on_end_Rejected:
  "on_end parser now after msgs st = (Rejected e, st') \<Longrightarrow>
     st' = st \<and> (\<exists>m\<in>set msgs. processSingleMessage parser now m = Inl e)"
  by (cases "Promise_all (processSingleMessage parser now) msgs")
     (auto simp: on_end_def dest: Promise_all_Inl)

lemma on_end_not_Pending: "fst (on_end parser now after msgs st) \<noteq> Pending"
  by (cases "Promise_all (processSingleMessage parser now) msgs") (auto simp: on_end_def)

lemma fetch_cycle_Resolved:
  "fetch_cycle parser now after reply st = (Resolved u, st') \<longleftrightarrow>
     signals reply = EndOnly \<and>
     (\<exists>mails. map Inr mails = map (processSingleMessage parser now) (messages reply) \<and>
              st' = after (foldl publish st mails))"
  by (cases "signals reply")
     (auto simp: fetch_cycle_def on_end_Resolved split: prod.splits)

lemma fetch_cycle_decode_failure:
  assumes "m \<in> set (messages reply)" "processSingleMessage parser now m = Inl e"
  shows "fst (fetch_cycle parser now after reply st) \<noteq> Resolved u"
    and "snd (fetch_cycle parser now after reply st) = st"
    and "signals reply = EndOnly \<Longrightarrow>
           \<exists>m'\<in>set (messages reply). \<exists>e'. processSingleMessage parser now m' = Inl e' \<and>
              fst (fetch_cycle parser now after reply st) = Rejected e'"
proof -
  from assms obtain e' where
    p: "Promise_all (processSingleMessage parser now) (messages reply) = Inl e'"
    using Promise_all_failure by blast
  then have o: "on_end parser now after (messages reply) st = (Rejected e', st)"
    by (simp add: on_end_def)
  show "fst (fetch_cycle parser now after reply st) \<noteq> Resolved u"
    by (cases "signals reply") (simp_all add: fetch_cycle_def o)
  show "snd (fetch_cycle parser now after reply st) = st"
    by (cases "signals reply") (simp_all add: fetch_cycle_def o)
  show "\<exists>m'\<in>set (messages reply). \<exists>e'. processSingleMessage parser now m' = Inl e' \<and>
              fst (fetch_cycle parser now after reply st) = Rejected e'"
    if "signals reply = EndOnly"
    using that Promise_all_Inl [OF p] by (auto simp: fetch_cycle_def o)
qed

lemma fetch_cycle_calls [simp]: "client (snd (fetch_cycle parser now (\<lambda>s. s\<lparr>numMessages := numMessages s + k\<rparr>) reply st)) = client st"
  by (cases "signals reply"; cases "Promise_all (processSingleMessage parser now) (messages reply)")
     (simp_all add: fetch_cycle_def on_end_def)






lemma getUnseenMails_invocations:
  assumes "getUnseenMails parser now (SearchOk ids) fetch st = (Resolved u, st')" "ids \<noteq> []"
  shows "invocations st' h =
           invocations st h + length (messages (fetch (SeqFetchIds ids))) *
             (count_list (listeners st) h + count_list (mailListeners st) h)"
proof -
  from assms obtain mails where
    m: "map Inr mails = map (processSingleMessage parser now) (messages (fetch (SeqFetchIds ids)))"
    and s: "st' = foldl publish (engine_call (SeqFetchIds ids) (engine_call Search st)) mails"
    by (auto simp: getUnseenMails_def Let_def fetch_cycle_Resolved split: if_splits)
  from m have "length mails = length (messages (fetch (SeqFetchIds ids)))"
    by (rule map_eq_imp_length_eq)
  moreover have "invocations st' h =
      invocations (engine_call (SeqFetchIds ids) (engine_call Search st)) h +
        length mails * (count_list (listeners st) h + count_list (mailListeners st) h)"
    unfolding s by (simp add: invocations_foldl_publish)
  moreover have "invocations (engine_call (SeqFetchIds ids) (engine_call Search st)) h =
      invocations st h"
    by (simp add: invocations_def)
  ultimately show ?thesis by simp
qed

lemma getUnseenMails_published:
  assumes "getUnseenMails parser now (SearchOk ids) fetch st = (Resolved u, st')" "ids \<noteq> []"
  shows "map Inr (published st st') =
           map (processSingleMessage parser now) (messages (fetch (SeqFetchIds ids)))"
proof -
  from assms obtain mails where
    m: "map Inr mails = map (processSingleMessage parser now) (messages (fetch (SeqFetchIds ids)))"
    and s: "st' = foldl publish (engine_call (SeqFetchIds ids) (engine_call Search st)) mails"
    by (auto simp: getUnseenMails_def Let_def fetch_cycle_Resolved split: if_splits)
  have "emitted st' = emitted st @ mails" by (simp add: s)
  then have "published st st' = mails" by (rule published_append)
  with m show ?thesis by simp
qed

subsection \<open>Push notifications in client.ts\<close>

lemma fetchNewMessages_range:
  assumes "client st \<noteq> None"
  shows "calls (snd (fetchNewMessages parser now numNew fetch st)) =
           calls st @ [SeqFetchRange (numMessages st + 1) (numMessages st + numNew)]"
  using assms by (simp add: fetchNewMessages_def Let_def calls_def split: option.splits)

lemma fetchNewMessages_Resolved:
  assumes "fetchNewMessages parser now numNew fetch st = (Resolved u, st')" "client st \<noteq> None"
  shows "numMessages st' = numMessages st + numNew"
  using assms by (auto simp: fetchNewMessages_def Let_def fetch_cycle_Resolved)

lemma fetchNewMessages_published:
  assumes "fetchNewMessages parser now numNew fetch st = (Resolved u, st')" "client st \<noteq> None"
  shows "map Inr (published st st') =
           map (processSingleMessage parser now)
             (messages (fetch (SeqFetchRange (numMessages st + 1) (numMessages st + numNew))))"
proof -
  let ?c = "SeqFetchRange (numMessages st + 1) (numMessages st + numNew)"
  from assms obtain mails where
    m: "map Inr mails = map (processSingleMessage parser now) (messages (fetch ?c))"
    and s: "st' = (foldl publish (engine_call ?c st) mails)
                    \<lparr>numMessages := numMessages (foldl publish (engine_call ?c st) mails) + numNew\<rparr>"
    by (auto simp: fetchNewMessages_def Let_def fetch_cycle_Resolved)
  have "emitted st' = emitted st @ mails" by (simp add: s)
  then have "published st st' = mails" by (rule published_append)
  with m show ?thesis by simp
qed



lemma fetchNewMessages_decode_failure:
  assumes "fetchNewMessages parser now numNew fetch st = (Rejected (DecodeError e), st')"
  shows "numMessages st' = numMessages st"
proof (cases "client st = None")
  case True
  with assms show ?thesis by (simp add: fetchNewMessages_def)
next
  case False
  let ?c = "SeqFetchRange (numMessages st + 1) (numMessages st + numNew)"
  from assms False have c: "fetch_cycle parser now (\<lambda>s. s\<lparr>numMessages := numMessages s + numNew\<rparr>)
      (fetch ?c) (engine_call ?c st) = (Rejected (DecodeError e), st')"
    by (simp add: fetchNewMessages_def Let_def)
  then have "signals (fetch ?c) = EndOnly"
    by (cases "signals (fetch ?c)") (auto simp: fetch_cycle_def split: prod.splits)
  with c have "on_end parser now (\<lambda>s. s\<lparr>numMessages := numMessages s + numNew\<rparr>)
      (messages (fetch ?c)) (engine_call ?c st) = (Rejected (DecodeError e), st')"
    by (simp add: fetch_cycle_def)
  then have "st' = engine_call ?c st" by (auto dest: on_end_Rejected)
  then show ?thesis by simp
qed

lemma fetchNewMessages_decode_failure_unpublished:
  assumes "client st \<noteq> None"
    and "m \<in> set (messages (fetch (SeqFetchRange (numMessages st + 1) (numMessages st + numNew))))"
    and "processSingleMessage parser now m = Inl e"
  shows "fst (fetchNewMessages parser now numNew fetch st) \<noteq> Resolved ()"
    and "published st (snd (fetchNewMessages parser now numNew fetch st)) = []"
    and "numMessages (snd (fetchNewMessages parser now numNew fetch st)) = numMessages st"
proof -
  let ?c = "SeqFetchRange (numMessages st + 1) (numMessages st + numNew)"
  let ?after = "\<lambda>s :: 'a Client_scheme. s\<lparr>numMessages := numMessages s + numNew\<rparr>"
  have g: "fetchNewMessages parser now numNew fetch st =
      fetch_cycle parser now ?after (fetch ?c) (engine_call ?c st)"
    using assms(1) by (auto simp: fetchNewMessages_def Let_def)
  show "fst (fetchNewMessages parser now numNew fetch st) \<noteq> Resolved ()"
    unfolding g by (rule fetch_cycle_decode_failure(1) [OF assms(2,3)])
  have s: "snd (fetch_cycle parser now ?after (fetch ?c) (engine_call ?c st)) = engine_call ?c st"
    by (rule fetch_cycle_decode_failure(2) [OF assms(2,3)])
  show "published st (snd (fetchNewMessages parser now numNew fetch st)) = []"
    unfolding g s by simp
  show "numMessages (snd (fetchNewMessages parser now numNew fetch st)) = numMessages st"
    unfolding g s by simp
qed

lemma fetchNewMessages_error_without_end:
  assumes "signals (fetch (SeqFetchRange (numMessages st + 1) (numMessages st + numNew))) = ErrorOnly e"
  shows "fst (fetchNewMessages parser now numNew fetch st) \<noteq> Resolved () \<longrightarrow>
         numMessages (snd (fetchNewMessages parser now numNew fetch st)) = numMessages st"
  using assms by (simp add: fetchNewMessages_def Let_def fetch_cycle_def)

subsection \<open>The cycle of the variant with seenUIDs\<close>

lemma uid_parse_message_seen:
  "parse_message_seen parser now m = Inr mail \<Longrightarrow> uid mail = or_zero (attrs_uid m)"
  by (auto simp: parse_message_seen_def Let_def split: sum.splits)

lemma message_end_fields [simp]:
  "client (message_end parser now st m) = client st"
  "currentBox (message_end parser now st m) = currentBox st"
  "listeners (message_end parser now st m) = listeners st"
  "inflight (message_end parser now st m) = inflight st"
  by (simp_all add: message_end_def emit_def call_all_def split: sum.splits)

lemma emitted_message_end:
  "emitted (message_end parser now st m) = emitted st @ fulfilled [parse_message_seen parser now m]"
  by (simp add: message_end_def emit_def call_all_def split: sum.splits)

lemma seenUIDs_message_end:
  "seenUIDs (message_end parser now st m) =
     seenUIDs st \<union> uid ` set (fulfilled [parse_message_seen parser now m])"
  by (simp add: message_end_def emit_def call_all_def split: sum.splits)

lemma invocations_message_end:
  "invocations (message_end parser now st m) h =
     invocations st h + length (fulfilled [parse_message_seen parser now m]) * count_list (listeners st) h"
  by (simp add: message_end_def emit_def call_all_def invocations_def split: sum.splits)

lemma foldl_message_end_fields [simp]:
  "client (foldl (message_end parser now) st ms) = client st"
  "currentBox (foldl (message_end parser now) st ms) = currentBox st"
  "listeners (foldl (message_end parser now) st ms) = listeners st"
  "inflight (foldl (message_end parser now) st ms) = inflight st"
  by (induction ms arbitrary: st) simp_all

lemma emitted_foldl_message_end:
  "emitted (foldl (message_end parser now) st ms) =
     emitted st @ fulfilled (map (parse_message_seen parser now) ms)"
proof (induction ms arbitrary: st)
  case Nil
  then show ?case by simp
next
  case (Cons m ms)
  show ?case
    by (simp add: Cons emitted_message_end fulfilled_Cons [of _ "map _ ms"])
qed

lemma seenUIDs_foldl_message_end:
  "seenUIDs (foldl (message_end parser now) st ms) =
     seenUIDs st \<union> uid ` set (fulfilled (map (parse_message_seen parser now) ms))"
proof (induction ms arbitrary: st)
  case Nil
  then show ?case by simp
next
  case (Cons m ms)
  show ?case
    by (simp add: Cons seenUIDs_message_end fulfilled_Cons [of _ "map _ ms"] Un_assoc image_Un)
qed

lemma invocations_foldl_message_end:
  "invocations (foldl (message_end parser now) st ms) h =
     invocations st h +
       length (fulfilled (map (parse_message_seen parser now) ms)) * count_list (listeners st) h"
proof (induction ms arbitrary: st)
  case Nil
  then show ?case by simp
next
  case (Cons m ms)
  show ?case
    by (simp add: Cons invocations_message_end fulfilled_Cons [of _ "map _ ms"] algebra_simps)
qed

lemma engine_call_inflight [simp]: "inflight (engine_call c st) = inflight st"
  by (simp add: engine_call_def)

lemma message_end_inflight_update:
  "message_end parser now (st\<lparr>inflight := ps\<rparr>) m = (message_end parser now st m)\<lparr>inflight := ps\<rparr>"
  by (simp add: message_end_def emit_def call_all_def split: sum.splits)

lemma foldl_message_end_inflight_update:
  "foldl (message_end parser now) (st\<lparr>inflight := ps\<rparr>) ms =
     (foldl (message_end parser now) st ms)\<lparr>inflight := ps\<rparr>"
  by (induction ms arbitrary: st) (simp_all add: message_end_inflight_update)

lemma inflight_update_same: "inflight st = ps \<Longrightarrow> st\<lparr>inflight := ps\<rparr> = st"
  by auto

lemma foldl_Pair_message_end:
  "foldl (\<lambda>s (now, msg). message_end parser now s msg) st (map (Pair now) ms) =
     foldl (message_end parser now) st ms"
  by (induction ms arbitrary: st) simp_all

lemma settle_inflight_Nil: "inflight st = [] \<Longrightarrow> settle_inflight parser st = st"
  by (simp add: settle_inflight_def inflight_update_same)

lemma settle_inflight_same_clock:
  "inflight st = map (Pair now) ms \<Longrightarrow>
     settle_inflight parser st = foldl (message_end parser now) (st\<lparr>inflight := []\<rparr>) ms"
  by (simp add: settle_inflight_def foldl_Pair_message_end)

lemma fst_fetchMessages:
  "fst (fetchMessages parser now uids fetch st) =
     (case signals (fetch (FetchUids uids)) of
        NoSignal \<Rightarrow> Pending
      | ErrorOnly e \<Rightarrow> Rejected (FetchError e)
      | EndOnly \<Rightarrow> Resolved ()
      | ErrorThenEnd e \<Rightarrow> Rejected (FetchError e))"
  by (simp add: fetchMessages_def Let_def split: fetch_signals.splits)

text \<open>
  The state that \<open>fetchMessages\<close> returns: the handlers of some first part of the
  messages, in the order of completion, have run, and the others are in flight.
\<close>

lemma snd_fetchMessages:
  "\<exists>early late.
     sort_key settles_at (messages (fetch (FetchUids uids))) = early @ late \<and>
     snd (fetchMessages parser now uids fetch st) =
       (foldl (message_end parser now) (engine_call (FetchUids uids) st) early)
         \<lparr>inflight := inflight st @ map (Pair now) late\<rparr> \<and>
     (signals (fetch (FetchUids uids)) = EndOnly \<longrightarrow> late = [])"
proof -
  let ?r = "fetch (FetchUids uids)"
  let ?order = "sort_key settles_at (messages ?r)"
  let ?st1 = "engine_call (FetchUids uids) st"
  let ?P = "\<lambda>m. settles_at m < error_at ?r"
  let ?Q = "\<lambda>early late. ?order = early @ late \<and>
     snd (fetchMessages parser now uids fetch st) =
       (foldl (message_end parser now) ?st1 early)\<lparr>inflight := inflight st @ map (Pair now) late\<rparr> \<and>
     (signals ?r = EndOnly \<longrightarrow> late = [])"
  have i: "(foldl (message_end parser now) ?st1 ?order)\<lparr>inflight := inflight st\<rparr> =
      foldl (message_end parser now) ?st1 ?order"
    by (rule inflight_update_same) simp
  have "?Q [] ?order \<or> ?Q ?order [] \<or> ?Q (takeWhile ?P ?order) (dropWhile ?P ?order)"
  proof (cases "signals ?r")
    case NoSignal
    then have "?Q [] ?order" by (simp add: fetchMessages_def Let_def)
    then show ?thesis by (rule disjI1)
  next
    case EndOnly
    then have "?Q ?order []" by (simp add: fetchMessages_def Let_def i)
    then show ?thesis by (intro disjI2 disjI1)
  next
    case (ErrorOnly e)
    then have "?Q (takeWhile ?P ?order) (dropWhile ?P ?order)"
      by (simp add: fetchMessages_def Let_def)
    then show ?thesis by (intro disjI2)
  next
    case (ErrorThenEnd e)
    then have "?Q (takeWhile ?P ?order) (dropWhile ?P ?order)"
      by (simp add: fetchMessages_def Let_def)
    then show ?thesis by (intro disjI2)
  qed
  then show ?thesis
  proof (elim disjE)
    assume "?Q [] ?order"
    then show ?thesis
      by - (rule exI [of _ "[]"], rule exI [of _ ?order], assumption)
  next
    assume "?Q ?order []"
    then show ?thesis
      by - (rule exI [of _ ?order], rule exI [of _ "[]"], assumption)
  next
    assume "?Q (takeWhile ?P ?order) (dropWhile ?P ?order)"
    then show ?thesis
      by - (rule exI [of _ "takeWhile ?P ?order"], rule exI [of _ "dropWhile ?P ?order"],
          assumption)
  qed
qed

lemma snd_fetchMessages_EndOnly:
  assumes "signals (fetch (FetchUids uids)) = EndOnly"
  shows "snd (fetchMessages parser now uids fetch st) =
     foldl (message_end parser now) (engine_call (FetchUids uids) st)
       (sort_key settles_at (messages (fetch (FetchUids uids))))"
  using assms by (simp add: fetchMessages_def Let_def)

text \<open>When the decodings in flight have completed, every handler of the cycle has run.\<close>

lemma settle_fetchMessages:
  assumes "inflight st = []"
  shows "settle_inflight parser (snd (fetchMessages parser now uids fetch st)) =
     foldl (message_end parser now) (engine_call (FetchUids uids) st)
       (sort_key settles_at (messages (fetch (FetchUids uids))))"
proof -
  let ?st1 = "engine_call (FetchUids uids) st"
  let ?order = "sort_key settles_at (messages (fetch (FetchUids uids)))"
  obtain early late where o: "?order = early @ late"
    and s: "snd (fetchMessages parser now uids fetch st) =
       (foldl (message_end parser now) ?st1 early)\<lparr>inflight := inflight st @ map (Pair now) late\<rparr>"
    using snd_fetchMessages [of fetch uids parser now st] by blast
  let ?mid = "foldl (message_end parser now) ?st1 early"
  have m: "inflight ?mid = []" using assms by simp
  have "settle_inflight parser (?mid\<lparr>inflight := map (Pair now) late\<rparr>) =
      foldl (message_end parser now) (?mid\<lparr>inflight := map (Pair now) late, inflight := []\<rparr>) late"
    by (rule settle_inflight_same_clock) simp
  also have "?mid\<lparr>inflight := map (Pair now) late, inflight := []\<rparr> = ?mid"
    using m by (simp add: inflight_update_same)
  also have "foldl (message_end parser now) ?mid late = foldl (message_end parser now) ?st1 ?order"
    by (simp add: o)
  finally show ?thesis using assms by (simp add: s)
qed

lemma emitted_fetchMessages_EndOnly:
  assumes "signals (fetch (FetchUids uids)) = EndOnly"
  shows "emitted (snd (fetchMessages parser now uids fetch st)) =
     emitted st @ fulfilled (map (parse_message_seen parser now)
                   (sort_key settles_at (messages (fetch (FetchUids uids)))))"
  using assms by (simp add: snd_fetchMessages_EndOnly emitted_foldl_message_end)

lemma emitted_settle_fetchMessages:
  assumes "inflight st = []"
  shows "emitted (settle_inflight parser (snd (fetchMessages parser now uids fetch st))) =
     emitted st @ fulfilled (map (parse_message_seen parser now)
                   (sort_key settles_at (messages (fetch (FetchUids uids)))))"
  by (simp add: settle_fetchMessages [OF assms] emitted_foldl_message_end)

lemma seenUIDs_settle_fetchMessages:
  assumes "inflight st = []"
  shows "seenUIDs (settle_inflight parser (snd (fetchMessages parser now uids fetch st))) =
     seenUIDs st \<union> uid ` {mail. \<exists>m\<in>set (messages (fetch (FetchUids uids))).
                               parse_message_seen parser now m = Inr mail}"
  by (simp add: settle_fetchMessages [OF assms] seenUIDs_foldl_message_end set_fulfilled_map)

text \<open>
  At the moment the promise settles: what has been emitted are records of messages of the
  fetch, and \<open>seenUIDs\<close> has grown by exactly their identifiers.
\<close>

lemma fetchMessages_at_settlement:
  "\<exists>ms. set ms \<subseteq> set (messages (fetch (FetchUids uids))) \<and>
     emitted (snd (fetchMessages parser now uids fetch st)) =
       emitted st @ fulfilled (map (parse_message_seen parser now) ms) \<and>
     seenUIDs (snd (fetchMessages parser now uids fetch st)) =
       seenUIDs st \<union> uid ` set (fulfilled (map (parse_message_seen parser now) ms))"
proof -
  let ?order = "sort_key settles_at (messages (fetch (FetchUids uids)))"
  obtain early late where o: "?order = early @ late"
    and s: "snd (fetchMessages parser now uids fetch st) =
       (foldl (message_end parser now) (engine_call (FetchUids uids) st) early)
         \<lparr>inflight := inflight st @ map (Pair now) late\<rparr>"
    using snd_fetchMessages [of fetch uids parser now st] by blast
  have "set early \<subseteq> set ?order" using o by simp
  then have "set early \<subseteq> set (messages (fetch (FetchUids uids)))" by simp
  moreover have "emitted (snd (fetchMessages parser now uids fetch st)) =
       emitted st @ fulfilled (map (parse_message_seen parser now) early)"
    by (simp add: s emitted_foldl_message_end)
  moreover have "seenUIDs (snd (fetchMessages parser now uids fetch st)) =
       seenUIDs st \<union> uid ` set (fulfilled (map (parse_message_seen parser now) early))"
    by (simp add: s seenUIDs_foldl_message_end)
  ultimately show ?thesis by blast
qed

lemma inflight_fetchMessages_EndOnly:
  "signals (fetch (FetchUids uids)) = EndOnly \<Longrightarrow>
     inflight (snd (fetchMessages parser now uids fetch st)) = inflight st"
  by (simp add: snd_fetchMessages_EndOnly)

lemma client_fetchMessages [simp]:
  "client (snd (fetchMessages parser now uids fetch st)) = None \<longleftrightarrow> client st = None"
  using snd_fetchMessages [of fetch uids parser now st] by auto

lemma calls_fetchMessages:
  "client st \<noteq> None \<Longrightarrow>
     calls (snd (fetchMessages parser now uids fetch st)) = calls st @ [FetchUids uids]"
  using snd_fetchMessages [of fetch uids parser now st]
  by (auto simp: calls_def split: option.splits)

lemma currentBox_fetchMessages [simp]:
  "currentBox (snd (fetchMessages parser now uids fetch st)) = currentBox st"
  using snd_fetchMessages [of fetch uids parser now st] by auto

lemma settle_inflight_fields [simp]:
  "client (settle_inflight parser st) = client st"
  "currentBox (settle_inflight parser st) = currentBox st"
proof -
  have "client (foldl (\<lambda>s (now, msg). message_end parser now s msg) s ps) = client s \<and>
        currentBox (foldl (\<lambda>s (now, msg). message_end parser now s msg) s ps) = currentBox s"
    for s :: "'a Client_seen_scheme" and ps
    by (induction ps arbitrary: s) (auto split: prod.splits)
  then show "client (settle_inflight parser st) = client st"
    and "currentBox (settle_inflight parser st) = currentBox st"
    by (simp_all add: settle_inflight_def)
qed

lemma fetchMessages_invocations:
  assumes "signals (fetch (FetchUids uids)) = EndOnly"
  shows "invocations (snd (fetchMessages parser now uids fetch st)) h =
     invocations st h +
       length (fulfilled (map (parse_message_seen parser now)
                 (sort_key settles_at (messages (fetch (FetchUids uids)))))) *
       count_list (listeners st) h"
proof -
  have "invocations (engine_call (FetchUids uids) st) h = invocations st h"
    by (simp add: invocations_def)
  then show ?thesis
    using assms by (simp add: snd_fetchMessages_EndOnly invocations_foldl_message_end)
qed

lemma getUnseenMails_seen_cases:
  "snd (getUnseenMails_seen parser now sr fetch st) = st \<or>
   snd (getUnseenMails_seen parser now sr fetch st) = engine_call Search st \<or>
   (\<exists>ids. sr = SearchOk ids \<and>
      snd (getUnseenMails_seen parser now sr fetch st) =
        snd (fetchMessages parser now (newUIDs (seenUIDs st) ids) fetch (engine_call Search st)))"
  by (cases sr) (simp_all add: getUnseenMails_seen_def Let_def)

text \<open>Whatever a scan has published is in \<open>seenUIDs\<close>.\<close>

lemma published_seen:
  "uid ` set (published st (snd (getUnseenMails_seen parser now sr fetch st)))
     \<subseteq> seenUIDs (snd (getUnseenMails_seen parser now sr fetch st))"
proof -
  let ?st' = "snd (getUnseenMails_seen parser now sr fetch st)"
  consider "?st' = st" | "?st' = engine_call Search st"
    | ids where "?st' =
        snd (fetchMessages parser now (newUIDs (seenUIDs st) ids) fetch (engine_call Search st))"
    using getUnseenMails_seen_cases [of parser now sr fetch st] by blast
  then show ?thesis
  proof cases
    case 1
    then show ?thesis by simp
  next
    case 2
    then show ?thesis by simp
  next
    case 3
    obtain ms where "emitted ?st' =
        emitted st @ fulfilled (map (parse_message_seen parser now) ms)"
      and "seenUIDs ?st' =
        seenUIDs st \<union> uid ` set (fulfilled (map (parse_message_seen parser now) ms))"
      using fetchMessages_at_settlement
        [of fetch "newUIDs (seenUIDs st) ids" parser now "engine_call Search st"]
      unfolding 3 by auto
    then show ?thesis by (simp add: published_append)
  qed
qed

text \<open>
  With an engine that returns what was requested, a scan publishes no identifier that was
  in \<open>seenUIDs\<close> when it started: not before its promise settles, and not when its
  decodings in flight complete.
\<close>

lemma requested_not_seen:
  assumes "returns_requested fetch"
    and "m \<in> set (messages (fetch (FetchUids (newUIDs seen ids))))"
    and "parse_message_seen parser now m = Inr mail"
  shows "uid mail \<notin> seen"
proof -
  from assms(1,2) obtain u where "u \<in> set (newUIDs seen ids)" "attrs_uid m = Some u"
    unfolding returns_requested_def by blast
  then show ?thesis
    using uid_parse_message_seen [OF assms(3)] by (simp add: newUIDs_def or_zero_def)
qed

lemma requested_decoded_not_seen:
  assumes "returns_requested fetch"
    and "set ms \<subseteq> set (messages (fetch (FetchUids (newUIDs seen ids))))"
  shows "uid ` set (fulfilled (map (parse_message_seen parser now) ms)) \<inter> seen = {}"
  using assms(2) requested_not_seen [OF assms(1), of _ seen ids parser now]
  by (auto simp: set_fulfilled_map)

lemma published_not_seen_before:
  assumes "returns_requested fetch"
  shows "uid ` set (published st (snd (getUnseenMails_seen parser now sr fetch st)))
           \<inter> seenUIDs st = {}"
proof -
  let ?st' = "snd (getUnseenMails_seen parser now sr fetch st)"
  consider "?st' = st" | "?st' = engine_call Search st"
    | ids where "?st' =
        snd (fetchMessages parser now (newUIDs (seenUIDs st) ids) fetch (engine_call Search st))"
    using getUnseenMails_seen_cases [of parser now sr fetch st] by blast
  then show ?thesis
  proof cases
    case 1
    then show ?thesis by simp
  next
    case 2
    then show ?thesis by simp
  next
    case 3
    obtain ms where m: "set ms \<subseteq> set (messages (fetch (FetchUids (newUIDs (seenUIDs st) ids))))"
      and e: "emitted ?st' = emitted st @ fulfilled (map (parse_message_seen parser now) ms)"
      using fetchMessages_at_settlement
        [of fetch "newUIDs (seenUIDs st) ids" parser now "engine_call Search st"]
      unfolding 3 by auto
    from e have "published st ?st' = fulfilled (map (parse_message_seen parser now) ms)"
      by (rule published_append)
    then show ?thesis
      using requested_decoded_not_seen [OF assms m, of parser now] by simp
  qed
qed

lemma settled_not_seen_before:
  assumes "returns_requested fetch" "inflight st = []"
  shows "uid ` set (published st
           (settle_inflight parser (snd (getUnseenMails_seen parser now sr fetch st))))
           \<inter> seenUIDs st = {}"
proof -
  let ?st' = "snd (getUnseenMails_seen parser now sr fetch st)"
  consider "?st' = st" | "?st' = engine_call Search st"
    | ids where "?st' =
        snd (fetchMessages parser now (newUIDs (seenUIDs st) ids) fetch (engine_call Search st))"
    using getUnseenMails_seen_cases [of parser now sr fetch st] by blast
  then show ?thesis
  proof cases
    case 1
    then show ?thesis using assms(2) by (simp add: settle_inflight_Nil)
  next
    case 2
    then show ?thesis using assms(2) by (simp add: settle_inflight_Nil)
  next
    case 3
    let ?ms = "sort_key settles_at (messages (fetch (FetchUids (newUIDs (seenUIDs st) ids))))"
    have i: "inflight (engine_call Search st) = []" using assms(2) by simp
    have "emitted (settle_inflight parser ?st') =
        emitted st @ fulfilled (map (parse_message_seen parser now) ?ms)"
      unfolding 3 using emitted_settle_fetchMessages [OF i, of parser now] by simp
    then have "published st (settle_inflight parser ?st') =
        fulfilled (map (parse_message_seen parser now) ?ms)"
      by (rule published_append)
    moreover have "set ?ms \<subseteq> set (messages (fetch (FetchUids (newUIDs (seenUIDs st) ids))))"
      by simp
    ultimately show ?thesis
      using requested_decoded_not_seen [OF assms(1), of ?ms "seenUIDs st" ids parser now] by simp
  qed
qed

lemma inflight_resolved:
  assumes "inflight st = []" "fst (getUnseenMails_seen parser now sr fetch st) = Resolved ()"
  shows "inflight (snd (getUnseenMails_seen parser now sr fetch st)) = []"
proof (cases sr)
  case (SearchOk ids)
  show ?thesis
  proof (cases "client st \<noteq> None \<and> currentBox st \<noteq> None \<and> ids \<noteq> [] \<and>
      newUIDs (seenUIDs st) ids \<noteq> []")
    case True
    then have g: "getUnseenMails_seen parser now sr fetch st =
        fetchMessages parser now (newUIDs (seenUIDs st) ids) fetch (engine_call Search st)"
      using SearchOk by (auto simp: getUnseenMails_seen_def Let_def)
    with assms(2) have "signals (fetch (FetchUids (newUIDs (seenUIDs st) ids))) = EndOnly"
      by (simp add: fst_fetchMessages split: fetch_signals.splits)
    then show ?thesis using assms(1) by (simp add: g inflight_fetchMessages_EndOnly)
  next
    case False
    then show ?thesis
      using assms(1) SearchOk by (auto simp: getUnseenMails_seen_def Let_def)
  qed
qed (use assms in \<open>auto simp: getUnseenMails_seen_def Let_def\<close>)

lemma snd_fetchNewMails:
  "snd (fetchNewMails parser now sr fetch st) = snd (getUnseenMails_seen parser now sr fetch st)"
  by (simp add: fetchNewMails_def split: prod.splits promise.splits)

lemma fst_fetchNewMails:
  "fst (fetchNewMails parser now sr fetch st) =
     (if fst (getUnseenMails_seen parser now sr fetch st) = Pending then Pending else Resolved ())"
  by (simp add: fetchNewMails_def split: prod.splits promise.splits)

lemma scan_decode_failure:
  "(client b \<noteq> None \<and> currentBox b \<noteq> None \<and> newUIDs (seenUIDs b) ids \<noteq> [] \<and>
    signals (fetch (FetchUids (newUIDs (seenUIDs b) ids))) = EndOnly \<longrightarrow>
      fst (getUnseenMails_seen parser now (SearchOk ids) fetch b) = Resolved () \<and>
      set (published b (snd (getUnseenMails_seen parser now (SearchOk ids) fetch b))) =
        {mail. \<exists>m\<in>set (messages (fetch (FetchUids (newUIDs (seenUIDs b) ids)))).
                 parse_message_seen parser now m = Inr mail}) \<and>
   (client a \<noteq> None \<and> ids' \<noteq> [] \<and> m \<in> set (messages (fetch' (SeqFetchIds ids'))) \<and>
    processSingleMessage parser now m = Inl e \<longrightarrow>
      fst (getUnseenMails parser now (SearchOk ids') fetch' a) \<noteq> Resolved () \<and>
      published a (snd (getUnseenMails parser now (SearchOk ids') fetch' a)) = [] \<and>
      (signals (fetch' (SeqFetchIds ids')) = EndOnly \<longrightarrow>
         (\<exists>e'. fst (getUnseenMails parser now (SearchOk ids') fetch' a) = Rejected (DecodeError e'))))"
proof (intro conjI impI)
  assume h: "client b \<noteq> None \<and> currentBox b \<noteq> None \<and> newUIDs (seenUIDs b) ids \<noteq> [] \<and>
    signals (fetch (FetchUids (newUIDs (seenUIDs b) ids))) = EndOnly"
  then have ne: "ids \<noteq> []" by (auto simp: newUIDs_def)
  from h ne have g: "getUnseenMails_seen parser now (SearchOk ids) fetch b =
      fetchMessages parser now (newUIDs (seenUIDs b) ids) fetch (engine_call Search b)"
    by (auto simp: getUnseenMails_seen_def Let_def)
  show "fst (getUnseenMails_seen parser now (SearchOk ids) fetch b) = Resolved ()"
    using h by (simp add: g fst_fetchMessages)
  have "emitted (snd (getUnseenMails_seen parser now (SearchOk ids) fetch b)) =
      emitted b @ fulfilled (map (parse_message_seen parser now)
        (sort_key settles_at (messages (fetch (FetchUids (newUIDs (seenUIDs b) ids))))))"
    using h by (simp add: g emitted_fetchMessages_EndOnly)
  then have "published b (snd (getUnseenMails_seen parser now (SearchOk ids) fetch b)) =
      fulfilled (map (parse_message_seen parser now)
        (sort_key settles_at (messages (fetch (FetchUids (newUIDs (seenUIDs b) ids))))))"
    by (rule published_append)
  then show "set (published b (snd (getUnseenMails_seen parser now (SearchOk ids) fetch b))) =
        {mail. \<exists>m\<in>set (messages (fetch (FetchUids (newUIDs (seenUIDs b) ids)))).
                 parse_message_seen parser now m = Inr mail}"
    by (simp add: set_fulfilled_map)
next
  assume h: "client a \<noteq> None \<and> ids' \<noteq> [] \<and> m \<in> set (messages (fetch' (SeqFetchIds ids'))) \<and>
    processSingleMessage parser now m = Inl e"
  let ?s = "engine_call (SeqFetchIds ids') (engine_call Search a)"
  let ?r = "fetch' (SeqFetchIds ids')"
  from h have g: "getUnseenMails parser now (SearchOk ids') fetch' a =
      fetch_cycle parser now (\<lambda>s. s) ?r ?s"
    by (auto simp: getUnseenMails_def Let_def)
  from h have m: "m \<in> set (messages ?r)" and p: "processSingleMessage parser now m = Inl e"
    by simp_all
  show "fst (getUnseenMails parser now (SearchOk ids') fetch' a) \<noteq> Resolved ()"
    unfolding g by (rule fetch_cycle_decode_failure(1) [OF m p])
  show "published a (snd (getUnseenMails parser now (SearchOk ids') fetch' a)) = []"
    unfolding g by (simp add: fetch_cycle_decode_failure(2) [OF m p])
  show "\<exists>e'. fst (getUnseenMails parser now (SearchOk ids') fetch' a) = Rejected (DecodeError e')"
    if "signals (fetch' (SeqFetchIds ids')) = EndOnly"
    unfolding g using fetch_cycle_decode_failure(3) [OF m p that, of "\<lambda>s. s" ?s]
    by (auto dest: processSingleMessage_Inl)
qed

subsection \<open>After close\<close>

lemma close_client: "client (snd (close st)) = None \<longleftrightarrow> client st = None"
  by (simp add: close_def)

lemma getUnseenMails_after_close:
  assumes "client st \<noteq> None"
  shows "fst (getUnseenMails parser now sr fetch (snd (close st))) \<noteq> Rejected NotConnectedError"
proof -
  let ?st = "snd (close st)"
  have c: "client ?st \<noteq> None" using assms by (simp add: close_client)
  show ?thesis
  proof (cases sr)
    case (SearchOk ids)
    let ?r = "fetch (SeqFetchIds ids)"
    let ?s = "engine_call (SeqFetchIds ids) (engine_call Search ?st)"
    have "fst (fetch_cycle parser now (\<lambda>s. s) ?r ?s) \<noteq> Rejected NotConnectedError"
      by (cases "signals ?r"; cases "Promise_all (processSingleMessage parser now) (messages ?r)")
         (auto simp: fetch_cycle_def on_end_def dest!: Promise_all_Inl simp: processSingleMessage_def Let_def
           split: sum.splits)
    with c SearchOk show ?thesis by (simp add: getUnseenMails_def Let_def)
  qed (use c in \<open>simp_all add: getUnseenMails_def Let_def\<close>)
qed

lemma switchMailbox_never_NotConnectedError:
  "fst (switchMailbox name reply st) \<noteq> Rejected NotConnectedError"
  by (cases reply) (simp_all add: switchMailbox_def Let_def)

subsection \<open>Connecting\<close>

lemma connect_events_settled:
  "p \<noteq> Pending \<Longrightarrow> fst (connect_events evs errL readyL boxP p st) = p"
proof (induction evs arbitrary: errL readyL boxP st)
  case Nil
  then show ?case by simp
next
  case (Cons ev evs)
  then show ?case by (cases ev) (auto split: sum.splits)
qed

lemma connect_events_skip:
  assumes "ReadyEv \<notin> set pre" "\<forall>e. ErrorEv e \<notin> set pre"
  shows "connect_events (pre @ evs) errL readyL False p st =
         connect_events evs errL readyL False p st"
  using assms
proof (induction pre)
  case Nil
  then show ?case by simp
next
  case (Cons ev pre)
  then show ?case by (cases ev) auto
qed

lemma connect_events_resolved_box:
  "fst (connect_events evs errL readyL True Pending st) = Resolved () \<Longrightarrow>
     \<exists>mid box post. evs = mid @ OpenBoxCb (Inr box) # post"
proof (induction evs arbitrary: errL readyL st)
  case Nil
  then show ?case by simp
next
  case (Cons ev evs)
  show ?case
  proof (cases ev)
    case (ErrorEv e)
    with Cons.prems show ?thesis
      by (auto simp: connect_events_settled split: if_splits)
  next
    case ReadyEv
    with Cons.prems have "\<exists>mid box post. evs = mid @ OpenBoxCb (Inr box) # post"
      by (auto dest: Cons.IH split: if_splits)
    then obtain mid box post where "evs = mid @ OpenBoxCb (Inr box) # post" by blast
    then have "ev # evs = (ev # mid) @ OpenBoxCb (Inr box) # post" by simp
    then show ?thesis by blast
  next
    case (OpenBoxCb r)
    show ?thesis
    proof (cases r)
      case (Inl e)
      with Cons.prems OpenBoxCb show ?thesis by (simp add: connect_events_settled)
    next
      case (Inr box)
      with OpenBoxCb have "ev # evs = [] @ OpenBoxCb (Inr box) # evs" by simp
      then show ?thesis by blast
    qed
  qed
qed

lemma connect_events_resolved:
  "fst (connect_events evs errL readyL False Pending st) = Resolved () \<Longrightarrow>
     \<exists>pre mid box post. evs = pre @ ReadyEv # mid @ OpenBoxCb (Inr box) # post"
proof (induction evs arbitrary: errL readyL st)
  case Nil
  then show ?case by simp
next
  case (Cons ev evs)
  show ?case
  proof (cases "ev = ReadyEv \<and> readyL")
    case True
    with Cons.prems obtain mid box post where "evs = mid @ OpenBoxCb (Inr box) # post"
      by (auto dest: connect_events_resolved_box)
    with True have "ev # evs = [] @ ReadyEv # mid @ OpenBoxCb (Inr box) # post" by simp
    then show ?thesis by blast
  next
    case False
    with Cons.prems have "\<exists>pre mid box post. evs = pre @ ReadyEv # mid @ OpenBoxCb (Inr box) # post"
      by (cases ev) (auto simp: connect_events_settled dest: Cons.IH split: if_splits)
    then obtain pre mid box post where "evs = pre @ ReadyEv # mid @ OpenBoxCb (Inr box) # post"
      by blast
    then have "ev # evs = (ev # pre) @ ReadyEv # mid @ OpenBoxCb (Inr box) # post" by simp
    then show ?thesis by blast
  qed
qed

lemma fst_connect:
  "fst (connect thrown evs st) =
     fst (connect_events evs True True False
            (case thrown of None \<Rightarrow> Pending | Some e \<Rightarrow> Rejected (ConnectionError e))
            (engine_call Connect (st\<lparr>client := Some []\<rparr>)))"
  by (simp add: connect_def Let_def)

lemma create_fst_connect:
  "create cfg thrown evs =
     (case fst (connect thrown evs (new_Client cfg)) of
        Pending \<Rightarrow> Pending
      | Resolved u \<Rightarrow> Resolved (snd (connect thrown evs (new_Client cfg)))
      | Rejected e \<Rightarrow> Rejected e)"
  by (simp add: create_def split: prod.splits promise.splits)

subsection \<open>Sample inputs\<close>

lemma returns_requested_sample_fetch: "returns_requested sample_fetch"
  by (auto simp: returns_requested_def sample_fetch_def sample_msg_def)

lemma create_ready_client:
  "create sample_config None [ReadyEv, OpenBoxCb (Inr sample_box)] = Resolved ready_client"
  by (simp add: create_def connect_def new_Client_def engine_call_def configured_mailbox_def
      or_empty_def setupListeners_def sample_config_def sample_box_def ready_client_def)

section \<open>Delivery to subscribers (C1)\<close>

text \<open>
  Claim C1: for a fetch cycle that yields N messages, every handler subscribed with
  \<open>on("mail", handler)\<close> is called exactly N times, each record once.

  In \<open>client.ts\<close> the claim does not hold. \<open>on\<close> registers the handler with the emitter and
  in \<open>mailListeners\<close>, and the cycle calls the listeners of the emitter and then those of
  \<open>mailListeners\<close> for every mail (lemma \<open>getUnseenMails_invocations\<close>). With one handler
  subscribed once and a cycle of one message, the call resolves and the handler has been
  called twice with the one record. The variant with \<open>seenUIDs\<close> has no \<open>mailListeners\<close>
  and calls a listener once for every record (lemma \<open>fetchMessages_invocations\<close>).
\<close>

theorem C1_handler_invoked_twice:
  "fst (getUnseenMails sample_parser 0 (SearchOk [1]) sample_fetch (on 7 ready_client)) = Resolved () \<and>
   length (messages (sample_fetch (SeqFetchIds [1]))) = 1 \<and>
   invocations (snd (getUnseenMails sample_parser 0 (SearchOk [1]) sample_fetch (on 7 ready_client))) 7 = 2"
  by code_simp

section \<open>No second publication of an identifier (C2)\<close>

text \<open>
  Claim C2: an identifier published by one \<open>getUnseenMails\<close> is not published again by the
  next; when the first scan delivers 1, 2, 3 and the second search returns 1, 2, 3, 4, the
  second scan publishes only 4.

  \<open>client.ts\<close> keeps no record of what it has published and fetches every identifier the
  search returns: there the second scan publishes 1, 2, 3 and 4.
\<close>

theorem C2_client_ts_republishes:
  "map uid (published ready_client first_scan) = [1, 2, 3] \<and>
   map uid (published first_scan
      (snd (getUnseenMails sample_parser 0 (SearchOk [1, 2, 3, 4]) sample_fetch first_scan)))
     = [1, 2, 3, 4]"
  by code_simp

text \<open>
  In the variant with \<open>seenUIDs\<close> an identifier is recorded when its decoding has
  completed. A scan that a fetch \<open>error\<close> rejects while a decoding is still running has
  not recorded that identifier: a retry fetches it again, and it is published again when
  the first decoding completes.
\<close>

lemma retry_after_fetch_error_republishes:
  "fst (getUnseenMails_seen sample_parser 0 (SearchOk [1]) interrupted_fetch ready_client_seen)
     = Rejected (FetchError ''boom'') \<and>
   seenUIDs interrupted_scan = {} \<and>
   map uid (emitted interrupted_scan) = [] \<and>
   map (attrs_uid \<circ> snd) (inflight interrupted_scan) = [Some 1] \<and>
   map uid (emitted
      (snd (getUnseenMails_seen sample_parser 0 (SearchOk [1]) sample_fetch interrupted_scan)))
     = [1] \<and>
   map uid (emitted (settle_inflight sample_parser
      (snd (getUnseenMails_seen sample_parser 0 (SearchOk [1]) sample_fetch interrupted_scan))))
     = [1, 1]"
  by code_simp

text \<open>
  Claim C2, amended: in the variant with \<open>seenUIDs\<close>, when no decoding of an earlier cycle
  is still running, the first \<open>getUnseenMails\<close> resolves, and the engine answers the second
  fetch only with messages it was asked for, no identifier published by the first is
  published by the second, neither before the promise of the second settles nor when the
  decodings it has left in flight complete. Every published identifier is in \<open>seenUIDs\<close>
  (lemma \<open>published_seen\<close>) and the next scan requests no identifier of \<open>seenUIDs\<close>
  (\<open>published_not_seen_before\<close>, \<open>settled_not_seen_before\<close>).
\<close>

theorem C2_seen_no_republication:
  assumes "inflight st = []"
    and "fst (getUnseenMails_seen parser now sr1 fetch1 st) = Resolved ()"
    and "st1 = snd (getUnseenMails_seen parser now sr1 fetch1 st)"
    and "st2 = snd (getUnseenMails_seen parser' now' sr2 fetch2 st1)"
    and "returns_requested fetch2"
  shows "uid ` set (published st st1) \<inter> uid ` set (published st1 st2) = {} \<and>
         uid ` set (published st st1) \<inter>
           uid ` set (published st1 (settle_inflight parser' st2)) = {}"
proof -
  have s: "uid ` set (published st st1) \<subseteq> seenUIDs st1"
    unfolding assms(3) by (rule published_seen)
  have i: "inflight st1 = []"
    unfolding assms(3) using assms(1,2) by (rule inflight_resolved)
  have "uid ` set (published st1 st2) \<inter> seenUIDs st1 = {}"
    unfolding assms(4) using assms(5) by (rule published_not_seen_before)
  moreover have "uid ` set (published st1 (settle_inflight parser' st2)) \<inter> seenUIDs st1 = {}"
    unfolding assms(4) using assms(5) i by (rule settled_not_seen_before)
  ultimately show ?thesis using s by blast
qed

text \<open>The scenario of the claim: the second scan publishes 4 and nothing else.\<close>

theorem C2_seen_no_republication_witness:
  "returns_requested sample_fetch \<and>
   fst (getUnseenMails_seen sample_parser 0 (SearchOk [1, 2, 3]) sample_fetch ready_client_seen)
     = Resolved () \<and>
   map uid (published ready_client_seen first_scan_seen) = [1, 2, 3] \<and>
   map uid (published first_scan_seen
      (snd (getUnseenMails_seen sample_parser 0 (SearchOk [1, 2, 3, 4]) sample_fetch first_scan_seen)))
     = [4] \<and>
   uid ` set (published ready_client_seen first_scan_seen) \<inter>
   uid ` set (published first_scan_seen
      (snd (getUnseenMails_seen sample_parser 0 (SearchOk [1, 2, 3, 4]) sample_fetch first_scan_seen)))
     = {} \<and>
   uid ` set (published ready_client_seen first_scan_seen) \<inter>
   uid ` set (published first_scan_seen (settle_inflight sample_parser
      (snd (getUnseenMails_seen sample_parser 0 (SearchOk [1, 2, 3, 4]) sample_fetch first_scan_seen))))
     = {}"
proof -
  have i: "inflight ready_client_seen = []" by (simp add: ready_client_seen_def)
  have r: "fst (getUnseenMails_seen sample_parser 0 (SearchOk [1, 2, 3]) sample_fetch
      ready_client_seen) = Resolved ()"
    by code_simp
  have a: "map uid (published ready_client_seen first_scan_seen) = [1, 2, 3]"
    by code_simp
  have b: "map uid (published first_scan_seen
      (snd (getUnseenMails_seen sample_parser 0 (SearchOk [1, 2, 3, 4]) sample_fetch first_scan_seen)))
     = [4]"
    by code_simp
  note t = C2_seen_no_republication [OF i r first_scan_seen_def refl returns_requested_sample_fetch,
      of sample_parser 0 "SearchOk [1, 2, 3, 4]"]
  from t r a b returns_requested_sample_fetch show ?thesis by blast
qed

section \<open>Order of publication (C3)\<close>




section \<open>A message that cannot be decoded (C4)\<close>

text \<open>
  Claim C4: when one message of a batch fails to decode and another decodes, the operation
  does not fail; the failing message is skipped and every decoded message is published.

  In \<open>client.ts\<close> the promise of the failing message is rejected, \<open>Promise.all\<close> rejects,
  and the \<open>end\<close> handler rejects the operation before it publishes anything: with a batch
  of an undecodable and a decodable message, \<open>getUnseenMails\<close> is rejected with the
  decoding error and publishes nothing.
\<close>

theorem C4_client_ts_batch_rejected:
  "map uid (fulfilled (map (processSingleMessage sample_parser 0)
      (messages (mixed_fetch (SeqFetchIds [1, 2]))))) = [2] \<and>
   fst (getUnseenMails sample_parser 0 (SearchOk [1, 2]) mixed_fetch ready_client)
     = Rejected (DecodeError ''bad MIME'') \<and>
   published ready_client
     (snd (getUnseenMails sample_parser 0 (SearchOk [1, 2]) mixed_fetch ready_client)) = []"
  by code_simp

text \<open>
  Claim C4, amended: in the variant with \<open>seenUIDs\<close>, a \<open>getUnseenMails\<close> whose fetch ends
  resolves whether or not messages fail to decode, and publishes exactly the records of the
  messages that decode; so does the cycle of a push notification, \<open>fetchNewMails\<close>, which
  runs \<open>getUnseenMails\<close>. In \<open>client.ts\<close>, a \<open>getUnseenMails\<close> or \<open>fetchNewMessages\<close> with a
  message that fails to decode does not resolve and publishes no record of the batch;
  \<open>getUnseenMails\<close> is rejected with a decoding error when the fetch ends.
\<close>

theorem C4_decode_failure:
  "(client b \<noteq> None \<and> currentBox b \<noteq> None \<and> newUIDs (seenUIDs b) ids \<noteq> [] \<and>
    signals (fetch (FetchUids (newUIDs (seenUIDs b) ids))) = EndOnly \<longrightarrow>
      fst (getUnseenMails_seen parser now (SearchOk ids) fetch b) = Resolved () \<and>
      fst (fetchNewMails parser now (SearchOk ids) fetch b) = Resolved () \<and>
      snd (fetchNewMails parser now (SearchOk ids) fetch b) =
        snd (getUnseenMails_seen parser now (SearchOk ids) fetch b) \<and>
      set (published b (snd (getUnseenMails_seen parser now (SearchOk ids) fetch b))) =
        {mail. \<exists>m\<in>set (messages (fetch (FetchUids (newUIDs (seenUIDs b) ids)))).
                 parse_message_seen parser now m = Inr mail}) \<and>
   (client a \<noteq> None \<and> ids' \<noteq> [] \<and> m \<in> set (messages (fetch' (SeqFetchIds ids'))) \<and>
    processSingleMessage parser now m = Inl e \<longrightarrow>
      fst (getUnseenMails parser now (SearchOk ids') fetch' a) \<noteq> Resolved () \<and>
      published a (snd (getUnseenMails parser now (SearchOk ids') fetch' a)) = [] \<and>
      (signals (fetch' (SeqFetchIds ids')) = EndOnly \<longrightarrow>
         (\<exists>e'. fst (getUnseenMails parser now (SearchOk ids') fetch' a) = Rejected (DecodeError e')))) \<and>
   (client a \<noteq> None \<and>
    m' \<in> set (messages (fetch' (SeqFetchRange (numMessages a + 1) (numMessages a + numNew)))) \<and>
    processSingleMessage parser now m' = Inl e \<longrightarrow>
      fst (fetchNewMessages parser now numNew fetch' a) \<noteq> Resolved () \<and>
      published a (snd (fetchNewMessages parser now numNew fetch' a)) = [])"
  using scan_decode_failure [of b ids fetch parser now a ids' m fetch' e]
    fetchNewMessages_decode_failure_unpublished(1,2) [of a m' fetch' numNew parser now e]
  by (simp add: snd_fetchNewMails fst_fetchNewMails)

theorem C4_decode_failure_witness:
  "fst (getUnseenMails_seen sample_parser 0 (SearchOk [1, 2]) mixed_fetch ready_client_seen)
     = Resolved () \<and>
   fst (fetchNewMails sample_parser 0 (SearchOk [1, 2]) mixed_fetch ready_client_seen)
     = Resolved () \<and>
   set (published ready_client_seen
      (snd (getUnseenMails_seen sample_parser 0 (SearchOk [1, 2]) mixed_fetch ready_client_seen))) =
     {mail. \<exists>m\<in>set (messages (mixed_fetch (FetchUids (newUIDs (seenUIDs ready_client_seen) [1, 2])))).
        parse_message_seen sample_parser 0 m = Inr mail} \<and>
   map uid (published ready_client_seen
      (snd (getUnseenMails_seen sample_parser 0 (SearchOk [1, 2]) mixed_fetch ready_client_seen)))
     = [2] \<and>
   processSingleMessage sample_parser 0 (garbage_msg 1 0) = Inl (DecodeError ''bad MIME'') \<and>
   fst (getUnseenMails sample_parser 0 (SearchOk [1, 2]) mixed_fetch ready_client) \<noteq> Resolved () \<and>
   published ready_client
     (snd (getUnseenMails sample_parser 0 (SearchOk [1, 2]) mixed_fetch ready_client)) = [] \<and>
   fst (fetchNewMessages sample_parser 0 2 mixed_fetch ready_client) \<noteq> Resolved () \<and>
   published ready_client (snd (fetchNewMessages sample_parser 0 2 mixed_fetch ready_client)) = []"
proof -
  have hb: "client ready_client_seen \<noteq> None \<and> currentBox ready_client_seen \<noteq> None \<and>
      newUIDs (seenUIDs ready_client_seen) [1, 2] \<noteq> [] \<and>
      signals (mixed_fetch (FetchUids (newUIDs (seenUIDs ready_client_seen) [1, 2]))) = EndOnly"
    by (simp add: ready_client_seen_def newUIDs_def mixed_fetch_def)
  have p: "processSingleMessage sample_parser 0 (garbage_msg 1 0) = Inl (DecodeError ''bad MIME'')"
    by code_simp
  have ha: "client ready_client \<noteq> None \<and> [1, 2 :: nat] \<noteq> [] \<and>
      garbage_msg 1 0 \<in> set (messages (mixed_fetch (SeqFetchIds [1, 2]))) \<and>
      processSingleMessage sample_parser 0 (garbage_msg 1 0) = Inl (DecodeError ''bad MIME'')"
    using p by (simp add: ready_client_def mixed_fetch_def)
  have hc: "client ready_client \<noteq> None \<and>
      garbage_msg 1 0 \<in> set (messages (mixed_fetch
        (SeqFetchRange (numMessages ready_client + 1) (numMessages ready_client + 2)))) \<and>
      processSingleMessage sample_parser 0 (garbage_msg 1 0) = Inl (DecodeError ''bad MIME'')"
    using p by (simp add: ready_client_def mixed_fetch_def)
  have u: "map uid (published ready_client_seen
      (snd (getUnseenMails_seen sample_parser 0 (SearchOk [1, 2]) mixed_fetch ready_client_seen)))
     = [2]"
    by code_simp
  note t = C4_decode_failure [of ready_client_seen "[1, 2]" mixed_fetch sample_parser 0
      ready_client "[1, 2]" "garbage_msg 1 0" mixed_fetch "DecodeError ''bad MIME''"
      "garbage_msg 1 0" 2]
  from t hb ha hc p u show ?thesis by blast
qed

section \<open>Operations after close (C5)\<close>

text \<open>
  Claim C5: after \<open>close()\<close> has completed, \<open>getUnseenMails\<close> and \<open>switchMailbox\<close> fail with
  \<open>NotConnectedError\<close>; they neither stay pending nor resolve without effect.

  In both variants \<open>close\<close> leaves \<open>this.client\<close> set, so the check of \<open>getUnseenMails\<close>
  passes and a search is sent to the closed engine (lemma \<open>getUnseenMails_after_close\<close>);
  \<open>switchMailbox\<close> has no check (\<open>switchMailbox_never_NotConnectedError\<close>). What happens
  then is the engine's reply: with none the promise stays pending, with an empty search
  result \<open>getUnseenMails\<close> resolves.
\<close>

theorem C5_no_error_after_close:
  "fst (close ready_client) = Resolved () \<and>
   fst (getUnseenMails sample_parser 0 NoReply sample_fetch (snd (close ready_client))) = Pending \<and>
   fst (getUnseenMails sample_parser 0 (SearchOk []) sample_fetch (snd (close ready_client))) = Resolved () \<and>
   fst (switchMailbox ''Archive'' NoBoxReply (snd (close ready_client))) = Pending \<and>
   fst (close ready_client_seen) = Resolved () \<and>
   fst (getUnseenMails_seen sample_parser 0 NoReply sample_fetch (snd (close ready_client_seen))) = Pending \<and>
   fst (switchMailbox ''Archive'' NoBoxReply (snd (close ready_client_seen))) = Pending"
  by code_simp

section \<open>Push notifications and the baseline (C6)\<close>

text \<open>
  Claim C6: a push notification of N new messages at baseline B fetches the sequence range
  from B+1 to B+N; the baseline grows by N only after the cycle has completed successfully,
  and stays as it is when the cycle fails.

  \<open>fetchNewMessages\<close> of \<open>client.ts\<close> requests that range (lemma
  \<open>fetchNewMessages_range\<close>), adds N when it resolves (\<open>fetchNewMessages_Resolved\<close>) and
  leaves the baseline alone when a message fails to decode or the fetch emits \<open>error\<close> and
  no \<open>end\<close> (\<open>fetchNewMessages_decode_failure\<close>, \<open>fetchNewMessages_error_without_end\<close>).
  The last part of the claim fails when the fetch emits \<open>error\<close> and then \<open>end\<close>: the
  \<open>end\<close> handler does not know of the rejection and adds N. With baseline 100 and a
  notification of 2 messages whose fetch fails that way, the range 101:102 is requested, the
  promise is rejected, and the baseline is 102.
\<close>

theorem C6_baseline_advanced_after_fetch_error:
  "numMessages ready_client = 100 \<and>
   calls (mail_event sample_parser 0 2 rejected_fetch ready_client)
     = [Connect, OpenBox ''INBOX'', SeqFetchRange 101 102] \<and>
   fst (fetchNewMessages sample_parser 0 2 rejected_fetch ready_client)
     = Rejected (FetchError ''boom'') \<and>
   numMessages (mail_event sample_parser 0 2 rejected_fetch ready_client)
     = 102"
  by code_simp

section \<open>Outcome of create (C7)\<close>

text \<open>
  Claim C7: when the engine emits a connection error during the handshake, \<open>create\<close> fails
  with that \<open>ConnectionError\<close> and does not resolve; when the handshake succeeds and the
  selection of the mailbox fails, \<open>create\<close> fails with that \<open>MailboxError\<close>; and \<open>create\<close>
  resolves only when a \<open>ready\<close> event and, after it, a successful \<open>openBox\<close> callback
  have occurred. The outcome is the one after all events, whatever follows the failure.
\<close>

theorem C7_create_outcomes:
  "(ReadyEv \<notin> set pre \<and> (\<forall>e'. ErrorEv e' \<notin> set pre) \<longrightarrow>
      create cfg None (pre @ ErrorEv e # post) = Rejected (ConnectionError e) \<and>
      create cfg None (pre @ ReadyEv # OpenBoxCb (Inl e) # post) = Rejected (MailboxError e)) \<and>
   (create cfg thrown evs = Resolved st \<longrightarrow>
      (\<exists>pre mid box post. evs = pre @ ReadyEv # mid @ OpenBoxCb (Inr box) # post))"
proof (intro conjI impI)
  assume h: "ReadyEv \<notin> set pre \<and> (\<forall>e'. ErrorEv e' \<notin> set pre)"
  let ?st = "engine_call Connect ((new_Client cfg)\<lparr>client := Some []\<rparr>)"
  have "fst (connect None (pre @ ErrorEv e # post) (new_Client cfg)) = Rejected (ConnectionError e)"
    using h by (simp add: fst_connect connect_events_skip connect_events_settled)
  then show "create cfg None (pre @ ErrorEv e # post) = Rejected (ConnectionError e)"
    by (simp add: create_fst_connect)
  have "fst (connect None (pre @ ReadyEv # OpenBoxCb (Inl e) # post) (new_Client cfg)) =
      Rejected (MailboxError e)"
    using h by (simp add: fst_connect connect_events_skip connect_events_settled)
  then show "create cfg None (pre @ ReadyEv # OpenBoxCb (Inl e) # post) = Rejected (MailboxError e)"
    by (simp add: create_fst_connect)
next
  assume r: "create cfg thrown evs = Resolved st"
  then have f: "fst (connect thrown evs (new_Client cfg)) = Resolved ()"
    by (auto simp: create_fst_connect split: promise.splits)
  have "thrown = None"
  proof (cases thrown)
    case (Some e0)
    with f show ?thesis by (simp add: fst_connect connect_events_settled)
  qed simp
  with f show "\<exists>pre mid box post. evs = pre @ ReadyEv # mid @ OpenBoxCb (Inr box) # post"
    by (auto simp: fst_connect dest: connect_events_resolved)
qed

theorem C7_create_outcomes_witness:
  "create sample_config None ([] @ ErrorEv ''refused'' # [ReadyEv, OpenBoxCb (Inr sample_box)])
     = Rejected (ConnectionError ''refused'') \<and>
   create sample_config None ([] @ ReadyEv # OpenBoxCb (Inl ''refused'') # [])
     = Rejected (MailboxError ''refused'') \<and>
   create sample_config None [ReadyEv, OpenBoxCb (Inr sample_box)] = Resolved ready_client \<and>
   (\<exists>pre mid box post.
      [ReadyEv, OpenBoxCb (Inr sample_box)] = pre @ ReadyEv # mid @ OpenBoxCb (Inr box) # post)"
proof -
  have h: "ReadyEv \<notin> set [] \<and> (\<forall>e'. ErrorEv e' \<notin> set [])" by simp
  note t = C7_create_outcomes [of "[]" sample_config "''refused''" "[ReadyEv, OpenBoxCb (Inr sample_box)]"
      None "[ReadyEv, OpenBoxCb (Inr sample_box)]" ready_client]
  note t' = C7_create_outcomes [of "[]" sample_config "''refused''" "[]"
      None "[ReadyEv, OpenBoxCb (Inr sample_box)]" ready_client]
  from t t' h create_ready_client show ?thesis by blast
qed

section \<open>Empty search results (C8)\<close>

text \<open>
  Claim C8: when the search of \<open>getUnseenMails\<close> returns no identifier, the call resolves,
  no fetch is issued and no mail event is published. This holds in both variants, for a
  client on which the search can be issued at all.
\<close>

theorem C8_empty_search_no_fetch:
  "(client a \<noteq> None \<longrightarrow>
      fst (getUnseenMails parser now (SearchOk []) fetch a) = Resolved () \<and>
      fetch_count (snd (getUnseenMails parser now (SearchOk []) fetch a)) = fetch_count a \<and>
      emitted (snd (getUnseenMails parser now (SearchOk []) fetch a)) = emitted a \<and>
      invoked (snd (getUnseenMails parser now (SearchOk []) fetch a)) = invoked a) \<and>
   (client b \<noteq> None \<and> currentBox b \<noteq> None \<longrightarrow>
      fst (getUnseenMails_seen parser now (SearchOk []) fetch b) = Resolved () \<and>
      fetch_count (snd (getUnseenMails_seen parser now (SearchOk []) fetch b)) = fetch_count b \<and>
      emitted (snd (getUnseenMails_seen parser now (SearchOk []) fetch b)) = emitted b \<and>
      invoked (snd (getUnseenMails_seen parser now (SearchOk []) fetch b)) = invoked b)"
  by (simp add: getUnseenMails_def getUnseenMails_seen_def Let_def fetch_count_engine_call)

theorem C8_empty_search_no_fetch_witness:
  "fst (getUnseenMails sample_parser 0 (SearchOk []) sample_fetch ready_client) = Resolved () \<and>
   fetch_count (snd (getUnseenMails sample_parser 0 (SearchOk []) sample_fetch ready_client)) = 0 \<and>
   emitted (snd (getUnseenMails sample_parser 0 (SearchOk []) sample_fetch ready_client)) = [] \<and>
   fst (getUnseenMails_seen sample_parser 0 (SearchOk []) sample_fetch ready_client_seen) = Resolved () \<and>
   fetch_count (snd (getUnseenMails_seen sample_parser 0 (SearchOk []) sample_fetch ready_client_seen)) = 0 \<and>
   emitted (snd (getUnseenMails_seen sample_parser 0 (SearchOk []) sample_fetch ready_client_seen)) = []"
proof -
  have a: "client ready_client \<noteq> None" by (simp add: ready_client_def)
  have b: "client ready_client_seen \<noteq> None \<and> currentBox ready_client_seen \<noteq> None"
    by (simp add: ready_client_seen_def)
  have c: "fetch_count ready_client = 0" "emitted ready_client = []"
    "fetch_count ready_client_seen = 0" "emitted ready_client_seen = []"
    by (simp_all add: ready_client_def ready_client_seen_def fetch_count_def calls_def)
  show ?thesis
    using C8_empty_search_no_fetch [of ready_client sample_parser 0 sample_fetch ready_client_seen] a b c by simp
qed

section \<open>Search results that are all processed (C9)\<close>

text \<open>
  Claim C9: in the variant with \<open>seenUIDs\<close>, when the search of \<open>getUnseenMails\<close> returns a
  non-empty list of identifiers that are all in \<open>seenUIDs\<close>, the call resolves, no fetch is
  issued and no mail event is published.
\<close>

theorem C9_all_seen_no_fetch:
  assumes "client st \<noteq> None" "currentBox st \<noteq> None" "ids \<noteq> []" "set ids \<subseteq> seenUIDs st"
  shows "fst (getUnseenMails_seen parser now (SearchOk ids) fetch st) = Resolved () \<and>
         fetch_count (snd (getUnseenMails_seen parser now (SearchOk ids) fetch st)) = fetch_count st \<and>
         emitted (snd (getUnseenMails_seen parser now (SearchOk ids) fetch st)) = emitted st \<and>
         invoked (snd (getUnseenMails_seen parser now (SearchOk ids) fetch st)) = invoked st"
proof -
  have "newUIDs (seenUIDs st) ids = []"
    using assms(4) by (auto simp: newUIDs_def filter_empty_conv)
  with assms(1,2,3) show ?thesis
    by (auto simp: getUnseenMails_seen_def Let_def fetch_count_engine_call)
qed

theorem C9_all_seen_no_fetch_witness:
  "fst (getUnseenMails_seen sample_parser 0 (SearchOk [1, 2, 3]) sample_fetch
          (ready_client_seen\<lparr>seenUIDs := {1, 2, 3}\<rparr>)) = Resolved () \<and>
   fetch_count (snd (getUnseenMails_seen sample_parser 0 (SearchOk [1, 2, 3]) sample_fetch
          (ready_client_seen\<lparr>seenUIDs := {1, 2, 3}\<rparr>))) = 0 \<and>
   emitted (snd (getUnseenMails_seen sample_parser 0 (SearchOk [1, 2, 3]) sample_fetch
          (ready_client_seen\<lparr>seenUIDs := {1, 2, 3}\<rparr>))) = []"
proof -
  let ?st = "ready_client_seen\<lparr>seenUIDs := {1, 2, 3}\<rparr>"
  have a: "client ?st \<noteq> None" "currentBox ?st \<noteq> None" "[1, 2, 3 :: nat] \<noteq> []"
    "set [1, 2, 3 :: nat] \<subseteq> seenUIDs ?st"
    by (simp_all add: ready_client_seen_def)
  have c: "fetch_count ?st = 0" "emitted ?st = []"
    by (simp_all add: ready_client_seen_def fetch_count_def calls_def)
  show ?thesis
    using C9_all_seen_no_fetch [OF a, of sample_parser 0 sample_fetch] c by simp
qed

section \<open>Identifiers of messages that fail to decode (C10)\<close>

text \<open>
  Claim C10: in the variant with \<open>seenUIDs\<close>, the identifier of a message whose decoding
  fails is not added to \<open>seenUIDs\<close>; an identifier is recorded only for a decoded message,
  just before its record is emitted, so the failed message can be fetched by a later
  \<open>getUnseenMails\<close>.

  When the promise of \<open>fetchMessages\<close> settles, \<open>seenUIDs\<close> has grown by identifiers of
  decoded messages only: by all of them when the fetch has ended, and by all of them once
  the decodings left in flight have completed. An identifier that was not in the set, and
  that no decoded message of the batch carries, is not in it at either moment, and a later
  scan whose search returns it requests it from the engine.
\<close>

theorem C10_failed_decode_not_recorded:
  assumes "m \<in> set (messages (fetch (FetchUids uids)))"
    and "parse_message_seen parser now m = Inl e"
    and "or_zero (attrs_uid m) \<notin> seenUIDs st"
    and "\<forall>m'\<in>set (messages (fetch (FetchUids uids))). \<forall>mail.
           parse_message_seen parser now m' = Inr mail \<longrightarrow> uid mail \<noteq> or_zero (attrs_uid m)"
    and "client st \<noteq> None" and "currentBox st \<noteq> None"
    and "st' = snd (fetchMessages parser now uids fetch st)"
  shows "seenUIDs st' \<subseteq>
           seenUIDs st \<union> uid ` {mail. \<exists>m'\<in>set (messages (fetch (FetchUids uids))).
                                    parse_message_seen parser now m' = Inr mail} \<and>
         (signals (fetch (FetchUids uids)) = EndOnly \<longrightarrow>
            seenUIDs st' =
              seenUIDs st \<union> uid ` {mail. \<exists>m'\<in>set (messages (fetch (FetchUids uids))).
                                       parse_message_seen parser now m' = Inr mail}) \<and>
         (inflight st = [] \<longrightarrow>
            seenUIDs (settle_inflight parser st') =
              seenUIDs st \<union> uid ` {mail. \<exists>m'\<in>set (messages (fetch (FetchUids uids))).
                                       parse_message_seen parser now m' = Inr mail} \<and>
            or_zero (attrs_uid m) \<notin> seenUIDs (settle_inflight parser st')) \<and>
         or_zero (attrs_uid m) \<notin> seenUIDs st' \<and>
         (or_zero (attrs_uid m) \<in> set ids \<longrightarrow>
            or_zero (attrs_uid m) \<in> set (newUIDs (seenUIDs st') ids) \<and>
            calls (snd (getUnseenMails_seen parser' now' (SearchOk ids) fetch' st')) =
              calls st' @ [Search, FetchUids (newUIDs (seenUIDs st') ids)])"
proof -
  let ?decoded = "{mail. \<exists>m'\<in>set (messages (fetch (FetchUids uids))).
                           parse_message_seen parser now m' = Inr mail}"
  have d: "or_zero (attrs_uid m) \<notin> seenUIDs st \<union> uid ` ?decoded"
    using assms(3,4) by auto
  obtain ms where ms: "set ms \<subseteq> set (messages (fetch (FetchUids uids)))"
    and e: "seenUIDs st' =
       seenUIDs st \<union> uid ` set (fulfilled (map (parse_message_seen parser now) ms))"
    using fetchMessages_at_settlement [of fetch uids parser now st] unfolding assms(7) by blast
  have "set (fulfilled (map (parse_message_seen parser now) ms)) \<subseteq> ?decoded"
    using ms by (auto simp: set_fulfilled_map)
  then have sub: "seenUIDs st' \<subseteq> seenUIDs st \<union> uid ` ?decoded"
    unfolding e by blast
  have n: "or_zero (attrs_uid m) \<notin> seenUIDs st'"
    using sub d by blast
  have eq: "seenUIDs st' = seenUIDs st \<union> uid ` ?decoded"
    if "signals (fetch (FetchUids uids)) = EndOnly"
    unfolding assms(7) using that
    by (simp add: snd_fetchMessages_EndOnly seenUIDs_foldl_message_end set_fulfilled_map)
  have settled: "seenUIDs (settle_inflight parser st') = seenUIDs st \<union> uid ` ?decoded"
    if "inflight st = []"
    unfolding assms(7) using that by (rule seenUIDs_settle_fetchMessages)
  have later: "or_zero (attrs_uid m) \<in> set (newUIDs (seenUIDs st') ids) \<and>
      calls (snd (getUnseenMails_seen parser' now' (SearchOk ids) fetch' st')) =
        calls st' @ [Search, FetchUids (newUIDs (seenUIDs st') ids)]"
    if i: "or_zero (attrs_uid m) \<in> set ids"
  proof -
    from i n have w: "or_zero (attrs_uid m) \<in> set (newUIDs (seenUIDs st') ids)"
      by (simp add: newUIDs_def)
    then have ne: "newUIDs (seenUIDs st') ids \<noteq> []" "ids \<noteq> []" using i by auto
    have c: "client st' \<noteq> None" "currentBox st' \<noteq> None"
      using assms(5,6) by (simp_all add: assms(7))
    then have "getUnseenMails_seen parser' now' (SearchOk ids) fetch' st' =
        fetchMessages parser' now' (newUIDs (seenUIDs st') ids) fetch' (engine_call Search st')"
      using ne by (auto simp: getUnseenMails_seen_def Let_def)
    then have "calls (snd (getUnseenMails_seen parser' now' (SearchOk ids) fetch' st')) =
        calls st' @ [Search, FetchUids (newUIDs (seenUIDs st') ids)]"
      using c by (auto simp: calls_fetchMessages calls_engine_call)
    with w show ?thesis by blast
  qed
  from sub n eq settled later d show ?thesis by auto
qed

theorem C10_failed_decode_not_recorded_witness:
  "garbage_msg 1 0 \<in> set (messages (mixed_fetch (FetchUids [1, 2]))) \<and>
   parse_message_seen sample_parser 0 (garbage_msg 1 0) = Inl (DecodeError ''bad MIME'') \<and>
   or_zero (attrs_uid (garbage_msg 1 0)) = 1 \<and>
   or_zero (attrs_uid (garbage_msg 1 0))
     \<notin> seenUIDs (snd (fetchMessages sample_parser 0 [1, 2] mixed_fetch ready_client_seen)) \<and>
   seenUIDs (snd (fetchMessages sample_parser 0 [1, 2] mixed_fetch ready_client_seen)) = {2} \<and>
   calls (snd (getUnseenMails_seen sample_parser 0 (SearchOk [1, 2]) sample_fetch
            (snd (fetchMessages sample_parser 0 [1, 2] mixed_fetch ready_client_seen)))) =
     [Connect, OpenBox ''INBOX'', FetchUids [1, 2], Search, FetchUids [1]] \<and>
   signals (mixed_fetch (FetchUids [1, 2])) = EndOnly \<and>
   inflight ready_client_seen = [] \<and>
   or_zero (attrs_uid (garbage_msg 1 0))
     \<notin> seenUIDs (settle_inflight sample_parser
          (snd (fetchMessages sample_parser 0 [1, 2] mixed_fetch ready_client_seen)))"
proof -
  let ?st' = "snd (fetchMessages sample_parser 0 [1, 2] mixed_fetch ready_client_seen)"
  have h1: "garbage_msg 1 0 \<in> set (messages (mixed_fetch (FetchUids [1, 2])))"
    by (simp add: mixed_fetch_def)
  have h2: "parse_message_seen sample_parser 0 (garbage_msg 1 0) = Inl (DecodeError ''bad MIME'')"
    by code_simp
  have u: "or_zero (attrs_uid (garbage_msg 1 0)) = 1"
    by (simp add: garbage_msg_def or_zero_def)
  have h3: "or_zero (attrs_uid (garbage_msg 1 0)) \<notin> seenUIDs ready_client_seen"
    by (simp add: ready_client_seen_def)
  have h4: "\<forall>m'\<in>set (messages (mixed_fetch (FetchUids [1, 2]))). \<forall>mail.
      parse_message_seen sample_parser 0 m' = Inr mail \<longrightarrow>
      uid mail \<noteq> or_zero (attrs_uid (garbage_msg 1 0))"
    by (auto simp: mixed_fetch_def parse_message_seen_def sample_parser_def garbage_msg_def
        sample_msg_def or_zero_def Let_def)
  have h5: "client ready_client_seen \<noteq> None" and h6: "currentBox ready_client_seen \<noteq> None"
    and h7: "inflight ready_client_seen = []"
    by (simp_all add: ready_client_seen_def)
  have h8: "signals (mixed_fetch (FetchUids [1, 2])) = EndOnly"
    by (simp add: mixed_fetch_def)
  note t = C10_failed_decode_not_recorded [of "garbage_msg 1 0" mixed_fetch "[1, 2]" sample_parser 0
      "DecodeError ''bad MIME''" ready_client_seen ?st' "[1, 2]" sample_parser 0 sample_fetch,
      OF h1 h2 h3 h4 h5 h6 refl]
  from t have n: "or_zero (attrs_uid (garbage_msg 1 0)) \<notin> seenUIDs ?st'" by blast
  from t h7 have n': "or_zero (attrs_uid (garbage_msg 1 0))
      \<notin> seenUIDs (settle_inflight sample_parser ?st')" by blast
  have s: "seenUIDs ?st' = {2}" by code_simp
  have c: "calls (snd (getUnseenMails_seen sample_parser 0 (SearchOk [1, 2]) sample_fetch ?st')) =
     [Connect, OpenBox ''INBOX'', FetchUids [1, 2], Search, FetchUids [1]]"
    by code_simp
  from h1 h2 u n n' s c h7 h8 show ?thesis by blast
qed

end
